theory Spec2Isabelle
  imports Complex_Main "HOL-Library.AList"
begin

section \<open>Chunking of CoQA documents and decoding of chunk predictions\<close>

text \<open>
  A shallow embedding of \<^verbatim>\<open>src/data_helper/chunk_helper_coqa.py\<close>:
  \<^verbatim>\<open>convert_examples_to_features\<close> (the chunker) and \<^verbatim>\<open>make_predictions\<close>
  (the decoder). Python integers are \<open>int\<close>, list positions that come from
  \<^verbatim>\<open>len\<close> and \<^verbatim>\<open>enumerate\<close> are \<open>nat\<close>, strings are \<open>string\<close>, dictionaries
  are association lists in insertion order, and every exception the code can
  raise is a value of \<open>py_error\<close>. The sliding-window loop may run forever, so it
  returns an \<open>option\<close>, with \<open>None\<close> for a run that never returns.
\<close>

subsection \<open>Python lists: indexing and slicing\<close>

datatype py_error = AssertionError | IndexError | KeyError | TypeError

text \<open>\<^verbatim>\<open>xs[i]\<close>: a position from the front when \<open>i\<close> is not negative, from the back
  when it is, and \<open>IndexError\<close> when the list has no such position.\<close>

definition py_get :: "'a list \<Rightarrow> int \<Rightarrow> py_error + 'a" where
  "py_get xs i =
     (if 0 \<le> i \<and> i < int (length xs) then Inr (xs ! nat i)
      else if i < 0 \<and> - int (length xs) \<le> i then Inr (xs ! nat (int (length xs) + i))
      else Inl IndexError)"

text \<open>A slice bound is moved into \<open>0..len\<close> as Python does: a negative bound counts
  from the end, and what is still out of range is clipped.\<close>

definition slice_bound :: "nat \<Rightarrow> int \<Rightarrow> nat" where
  "slice_bound n i = (if i < 0 then nat (int n + i) else min n (nat i))"

text \<open>\<^verbatim>\<open>xs[:j]\<close>, \<^verbatim>\<open>xs[i:]\<close> and \<^verbatim>\<open>xs[i:j]\<close>.\<close>

definition slice_to :: "'a list \<Rightarrow> int \<Rightarrow> 'a list" where
  "slice_to xs j = take (slice_bound (length xs) j) xs"

definition slice_from :: "'a list \<Rightarrow> int \<Rightarrow> 'a list" where
  "slice_from xs i = drop (slice_bound (length xs) i) xs"

definition slice :: "'a list \<Rightarrow> int \<Rightarrow> int \<Rightarrow> 'a list" where
  "slice xs i j = drop (slice_bound (length xs) i) (take (slice_bound (length xs) j) xs)"

subsection \<open>The sliding window\<close>

record DocSpan =
  start :: int
  span_length :: int

text \<open>
  The \<^verbatim>\<open>while\<close> loop of lines 114 to 123. \<open>n_doc\<close> is \<^verbatim>\<open>len(all_doc_tokens)\<close>.
  The loop has no bound of its own: \<open>None\<close> is the run that never leaves it.
\<close>

partial_function (option) doc_spans_loop ::
  "int \<Rightarrow> int \<Rightarrow> int \<Rightarrow> int \<Rightarrow> DocSpan list \<Rightarrow> DocSpan list option" where
  "doc_spans_loop n_doc max_tokens_for_doc doc_stride start_offset doc_spans =
     (if start_offset < n_doc then
        (let length0 = n_doc - start_offset;
             length1 = (if length0 > max_tokens_for_doc then max_tokens_for_doc else length0);
             doc_spans1 = doc_spans @ [\<lparr>start = start_offset, span_length = length1\<rparr>]
         in if start_offset + length1 = n_doc then Some doc_spans1
            else doc_spans_loop n_doc max_tokens_for_doc doc_stride
                   (start_offset + min length1 doc_stride) doc_spans1)
      else Some doc_spans)"

declare doc_spans_loop.simps [code]

definition make_doc_spans :: "int \<Rightarrow> int \<Rightarrow> int \<Rightarrow> DocSpan list option" where
  "make_doc_spans n_doc max_tokens_for_doc doc_stride =
     doc_spans_loop n_doc max_tokens_for_doc doc_stride 0 []"

subsection \<open>Examples, chunks and the external helpers\<close>

text \<open>
  \<^verbatim>\<open>CoQAExample\<close>: the questions of the conversation (current turn last), the
  whitespace tokens of the document, and the gold labels, which are \<^verbatim>\<open>None\<close> when
  the example carries none.
\<close>

record CoQAExample =
  question_texts :: "string list"
  doc_tokens :: "string list"
  orig_answer_text :: string
  ex_start_position :: "int option"
  ex_end_position :: "int option"
  ex_yes_no_flag :: "int option"
  ex_yes_no_ans :: "int option"
  paragraph_id :: string
  turn_id :: int

record ChunkFeature =
  unique_id :: int
  example_index :: nat
  doc_span_index :: nat
  tokens :: "string list"
  token_to_orig_map :: "(nat \<times> nat) list"
  token_is_max_context :: "(nat \<times> bool) list"
  input_ids :: "int list"
  input_mask :: "int list"
  segment_ids :: "int list"
  start_position :: "int option"
  end_position :: "int option"
  yes_no_flag :: "int option"
  yes_no_ans :: "int option"

text \<open>The tokenizer argument: \<^verbatim>\<open>tokenizer.tokenize\<close> and
  \<^verbatim>\<open>tokenizer.convert_tokens_to_ids\<close> of the transformers library.\<close>

record tokenizer =
  tokenize :: "string \<Rightarrow> string list"
  convert_tokens_to_ids :: "string list \<Rightarrow> int list"

text \<open>
  The functions imported from \<^verbatim>\<open>data_helper.qa_util\<close>, whose code is not part of
  the file: they are parameters of the model. Logits are modelled as real numbers.
\<close>

record qa_util =
  improve_answer_span :: "string list \<Rightarrow> int \<Rightarrow> int \<Rightarrow> tokenizer \<Rightarrow> string \<Rightarrow> int \<times> int"
  check_is_max_context :: "DocSpan list \<Rightarrow> nat \<Rightarrow> int \<Rightarrow> bool"
  get_best_indexes :: "real list \<Rightarrow> int \<Rightarrow> nat list"
  get_final_text :: "string \<Rightarrow> string \<Rightarrow> bool \<Rightarrow> bool \<Rightarrow> string"
  compute_softmax :: "real list \<Rightarrow> real list"

subsection \<open>The chunker: \<^verbatim>\<open>convert_examples_to_features\<close>\<close>

text \<open>Lines 77 to 86: the query tokens of an example.\<close>

definition query_tokens_of :: "tokenizer \<Rightarrow> int \<Rightarrow> bool \<Rightarrow> CoQAExample \<Rightarrow> string list" where
  "query_tokens_of tk max_query_length append_history example =
     (let all_query_tokens0 = map (tokenize tk) (question_texts example);
          all_query_tokens = (if append_history then rev all_query_tokens0 else all_query_tokens0);
          flat_all_query_tokens = concat all_query_tokens
      in if append_history then slice_to flat_all_query_tokens max_query_length
         else slice_from flat_all_query_tokens (- 1 * max_query_length))"

text \<open>Lines 88 to 96: the document is tokenized again, word by word. The state is
  \<open>(tok_to_orig_index, orig_to_tok_index, all_doc_tokens)\<close>.\<close>

fun tokenize_doc ::
  "tokenizer \<Rightarrow> nat \<Rightarrow> string list \<Rightarrow> nat list \<times> nat list \<times> string list
     \<Rightarrow> nat list \<times> nat list \<times> string list" where
  "tokenize_doc tk i [] acc = acc"
| "tokenize_doc tk i (token # rest) (tok_to_orig_index, orig_to_tok_index, all_doc_tokens) =
     (let sub_tokens = tokenize tk token
      in tokenize_doc tk (Suc i) rest
           (tok_to_orig_index @ replicate (length sub_tokens) i,
            orig_to_tok_index @ [length all_doc_tokens],
            all_doc_tokens @ sub_tokens))"

text \<open>Lines 100 to 108: the gold span in subword positions (training only).\<close>

definition tok_answer_span ::
  "qa_util \<Rightarrow> tokenizer \<Rightarrow> CoQAExample \<Rightarrow> nat list \<Rightarrow> string list \<Rightarrow> py_error + int \<times> int" where
  "tok_answer_span u tk example orig_to_tok_index all_doc_tokens =
     (case ex_start_position example of
        None \<Rightarrow> Inl TypeError
      | Some sp \<Rightarrow>
         (case py_get orig_to_tok_index sp of
            Inl e \<Rightarrow> Inl e
          | Inr tok_start_position \<Rightarrow>
             (case ex_end_position example of
                None \<Rightarrow> Inl TypeError
              | Some ep \<Rightarrow>
                 (if ep < int (length (doc_tokens example)) - 1 then
                    (case py_get orig_to_tok_index (ep + 1) of
                       Inl e \<Rightarrow> Inl e
                     | Inr nxt \<Rightarrow>
                         Inr (improve_answer_span u all_doc_tokens (int tok_start_position)
                                (int nxt - 1) tk (orig_answer_text example)))
                  else Inr (improve_answer_span u all_doc_tokens (int tok_start_position)
                              (int (length all_doc_tokens) - 1) tk (orig_answer_text example))))))"

text \<open>Lines 138 to 146: the document region of one chunk. The state is
  \<open>(tokens, token_to_orig_map, token_is_max_context, segment_ids)\<close>; the keys
  written to the two dictionaries are the growing \<^verbatim>\<open>len(tokens)\<close>, so each
  assignment adds a new key at the end.\<close>

fun add_doc_tokens ::
  "qa_util \<Rightarrow> nat list \<Rightarrow> string list \<Rightarrow> DocSpan list \<Rightarrow> nat \<Rightarrow> DocSpan \<Rightarrow> nat list
     \<Rightarrow> string list \<times> (nat \<times> nat) list \<times> (nat \<times> bool) list \<times> int list
     \<Rightarrow> py_error + string list \<times> (nat \<times> nat) list \<times> (nat \<times> bool) list \<times> int list" where
  "add_doc_tokens u tok_to_orig_index all_doc_tokens doc_spans dsi doc_span [] acc = Inr acc"
| "add_doc_tokens u tok_to_orig_index all_doc_tokens doc_spans dsi doc_span (i # rest)
     (toks, to_orig, max_ctx, segs) =
     (let split_token_index = start doc_span + int i
      in case py_get tok_to_orig_index split_token_index of
           Inl e \<Rightarrow> Inl e
         | Inr orig \<Rightarrow>
            (case py_get all_doc_tokens split_token_index of
               Inl e \<Rightarrow> Inl e
             | Inr tok \<Rightarrow>
                 add_doc_tokens u tok_to_orig_index all_doc_tokens doc_spans dsi doc_span rest
                   (toks @ [tok],
                    to_orig @ [(length toks, orig)],
                    max_ctx @ [(length toks,
                                check_is_max_context u doc_spans dsi split_token_index)],
                    segs @ [1])))"

text \<open>Lines 155 to 158: zero padding up to the sequence length.\<close>

function pad_loop :: "int \<Rightarrow> int list \<times> int list \<times> int list \<Rightarrow> int list \<times> int list \<times> int list" where
  "pad_loop max_seq_length (ids, msk, segs) =
     (if int (length ids) < max_seq_length
      then pad_loop max_seq_length (ids @ [0], msk @ [0], segs @ [0])
      else (ids, msk, segs))"
  by pat_completeness auto
termination
  by (relation "measure (\<lambda>(m, ids, msk, segs). nat (m - int (length ids)))") auto

declare pad_loop.simps [simp del]

text \<open>
  Lines 163 to 178: the labels of a chunk. The result is \<open>None\<close> when the window
  is left by \<^verbatim>\<open>continue\<close>, and otherwise
  \<open>(start_position, end_position, yes_no_flag, yes_no_ans)\<close>. \<open>gold\<close> is
  \<open>(tok_start_position, tok_end_position)\<close>, which is \<^verbatim>\<open>None\<close> outside training.
  The four comparisons are evaluated from the left, and a comparison or a
  subtraction with \<^verbatim>\<open>None\<close> raises \<open>TypeError\<close>.
\<close>

definition training_labels ::
  "bool \<Rightarrow> CoQAExample \<Rightarrow> string list \<Rightarrow> (int \<times> int) option \<Rightarrow> DocSpan
     \<Rightarrow> py_error + (int option \<times> int option \<times> int option \<times> int option) option" where
  "training_labels is_training example query_tokens gold doc_span =
     (if is_training then
        (let doc_start = start doc_span;
             doc_end = start doc_span + span_length doc_span - 1
         in case ex_start_position example of
              None \<Rightarrow> Inl TypeError
            | Some sp \<Rightarrow>
               (if sp < doc_start then Inr None
                else
                  (case ex_end_position example of
                     None \<Rightarrow> Inl TypeError
                   | Some ep \<Rightarrow>
                      (if ep < doc_start \<or> sp > doc_end \<or> ep > doc_end then Inr None
                       else
                         (case gold of
                            None \<Rightarrow> Inl TypeError
                          | Some (tok_start_position, tok_end_position) \<Rightarrow>
                             (let doc_offset = int (length query_tokens) + 2
                              in Inr (Some
                                   (Some (tok_start_position - doc_start + doc_offset),
                                    Some (tok_end_position - doc_start + doc_offset),
                                    ex_yes_no_flag example,
                                    ex_yes_no_ans example))))))))
      else Inr (Some (None, None, None, None)))"

text \<open>
  Lines 126 to 204: the body of the loop over the windows. The result is
  \<open>None\<close> when the window is left by \<^verbatim>\<open>continue\<close> and the chunk otherwise; an
  assertion that fails is the error \<open>AssertionError\<close>. The logging of lines 179
  to 189 has no effect on the result.
\<close>

definition build_chunk ::
  "qa_util \<Rightarrow> tokenizer \<Rightarrow> int \<Rightarrow> bool \<Rightarrow> CoQAExample \<Rightarrow> nat \<Rightarrow> string list \<Rightarrow> nat list
     \<Rightarrow> string list \<Rightarrow> (int \<times> int) option \<Rightarrow> DocSpan list \<Rightarrow> int \<Rightarrow> nat \<Rightarrow> DocSpan
     \<Rightarrow> py_error + ChunkFeature option" where
  "build_chunk u tk max_seq_length is_training example ex_index query_tokens tok_to_orig_index
       all_doc_tokens gold doc_spans uid dsi doc_span =
     (case add_doc_tokens u tok_to_orig_index all_doc_tokens doc_spans dsi doc_span
             [0..<nat (span_length doc_span)]
             (''[CLS]'' # query_tokens @ [''[SEP]''], [], [],
              0 # map (\<lambda>t. 0) query_tokens @ [0]) of
        Inl e \<Rightarrow> Inl e
      | Inr (toks0, to_orig, max_ctx, segs0) \<Rightarrow>
         (let toks = toks0 @ [''[SEP]''];
              segs1 = segs0 @ [1];
              ids0 = convert_tokens_to_ids tk toks;
              mask0 = map (\<lambda>t. 1) ids0
          in case pad_loop max_seq_length (ids0, mask0, segs1) of (ids, msk, segs) \<Rightarrow>
             if int (length ids) \<noteq> max_seq_length then Inl AssertionError
             else if int (length msk) \<noteq> max_seq_length then Inl AssertionError
             else if int (length segs) \<noteq> max_seq_length then Inl AssertionError
             else
               (case training_labels is_training example query_tokens gold doc_span of
                  Inl e \<Rightarrow> Inl e
                | Inr None \<Rightarrow> Inr None
                | Inr (Some (sp, ep, flag, ans)) \<Rightarrow>
                    Inr (Some
                      \<lparr>unique_id = uid, example_index = ex_index, doc_span_index = dsi,
                       tokens = toks, token_to_orig_map = to_orig,
                       token_is_max_context = max_ctx,
                       input_ids = ids, input_mask = msk, segment_ids = segs,
                       start_position = sp, end_position = ep,
                       yes_no_flag = flag, yes_no_ans = ans\<rparr>))))"

text \<open>Line 125: the loop over \<^verbatim>\<open>enumerate(doc_spans)\<close>. The state is the counter
  \<^verbatim>\<open>unique_id\<close> and the list \<^verbatim>\<open>features\<close>; the counter moves only when a chunk
  is appended.\<close>

fun spans_loop ::
  "qa_util \<Rightarrow> tokenizer \<Rightarrow> int \<Rightarrow> bool \<Rightarrow> CoQAExample \<Rightarrow> nat \<Rightarrow> string list \<Rightarrow> nat list
     \<Rightarrow> string list \<Rightarrow> (int \<times> int) option \<Rightarrow> DocSpan list \<Rightarrow> (nat \<times> DocSpan) list
     \<Rightarrow> int \<times> ChunkFeature list \<Rightarrow> py_error + int \<times> ChunkFeature list" where
  "spans_loop u tk max_seq_length is_training example ex_index query_tokens tok_to_orig_index
       all_doc_tokens gold doc_spans [] st = Inr st"
| "spans_loop u tk max_seq_length is_training example ex_index query_tokens tok_to_orig_index
       all_doc_tokens gold doc_spans ((dsi, doc_span) # rest) (uid, features) =
     (case build_chunk u tk max_seq_length is_training example ex_index query_tokens
             tok_to_orig_index all_doc_tokens gold doc_spans uid dsi doc_span of
        Inl e \<Rightarrow> Inl e
      | Inr None \<Rightarrow>
          spans_loop u tk max_seq_length is_training example ex_index query_tokens
            tok_to_orig_index all_doc_tokens gold doc_spans rest (uid, features)
      | Inr (Some f) \<Rightarrow>
          spans_loop u tk max_seq_length is_training example ex_index query_tokens
            tok_to_orig_index all_doc_tokens gold doc_spans rest (uid + 1, features @ [f]))"

text \<open>The subword document of an example and its budget (line 110).\<close>

definition all_doc_tokens_of :: "tokenizer \<Rightarrow> CoQAExample \<Rightarrow> string list" where
  "all_doc_tokens_of tk example =
     snd (snd (tokenize_doc tk 0 (doc_tokens example) ([], [], [])))"

definition max_tokens_for_doc_of :: "tokenizer \<Rightarrow> int \<Rightarrow> int \<Rightarrow> bool \<Rightarrow> CoQAExample \<Rightarrow> int" where
  "max_tokens_for_doc_of tk max_seq_length max_query_length append_history example =
     max_seq_length
       - int (length (query_tokens_of tk max_query_length append_history example)) - 3"

text \<open>Lines 76 to 205: the body of the loop over the examples. \<open>None\<close> is the run
  that never leaves the sliding-window loop.\<close>

definition convert_example ::
  "qa_util \<Rightarrow> tokenizer \<Rightarrow> int \<Rightarrow> int \<Rightarrow> int \<Rightarrow> bool \<Rightarrow> bool \<Rightarrow> nat \<Rightarrow> CoQAExample
     \<Rightarrow> int \<times> ChunkFeature list \<Rightarrow> (py_error + int \<times> ChunkFeature list) option" where
  "convert_example u tk max_seq_length doc_stride max_query_length is_training append_history
       ex_index example st =
     (let query_tokens = query_tokens_of tk max_query_length append_history example
      in case tokenize_doc tk 0 (doc_tokens example) ([], [], []) of
           (tok_to_orig_index, orig_to_tok_index, all_doc_tokens) \<Rightarrow>
           (case (if is_training
                  then map_sum id Some
                         (tok_answer_span u tk example orig_to_tok_index all_doc_tokens)
                  else Inr None) of
              Inl e \<Rightarrow> Some (Inl e)
            | Inr gold \<Rightarrow>
               (case make_doc_spans (int (length all_doc_tokens))
                       (max_seq_length - int (length query_tokens) - 3) doc_stride of
                  None \<Rightarrow> None
                | Some doc_spans \<Rightarrow>
                    Some (spans_loop u tk max_seq_length is_training example ex_index
                            query_tokens tok_to_orig_index all_doc_tokens gold doc_spans
                            (enumerate 0 doc_spans) st))))"

fun examples_loop ::
  "qa_util \<Rightarrow> tokenizer \<Rightarrow> int \<Rightarrow> int \<Rightarrow> int \<Rightarrow> bool \<Rightarrow> bool \<Rightarrow> (nat \<times> CoQAExample) list
     \<Rightarrow> int \<times> ChunkFeature list \<Rightarrow> (py_error + int \<times> ChunkFeature list) option" where
  "examples_loop u tk max_seq_length doc_stride max_query_length is_training append_history
       [] st = Some (Inr st)"
| "examples_loop u tk max_seq_length doc_stride max_query_length is_training append_history
       ((ex_index, example) # rest) st =
     (case convert_example u tk max_seq_length doc_stride max_query_length is_training
             append_history ex_index example st of
        None \<Rightarrow> None
      | Some (Inl e) \<Rightarrow> Some (Inl e)
      | Some (Inr st1) \<Rightarrow>
          examples_loop u tk max_seq_length doc_stride max_query_length is_training
            append_history rest st1)"

definition convert_examples_to_features ::
  "qa_util \<Rightarrow> CoQAExample list \<Rightarrow> tokenizer \<Rightarrow> int \<Rightarrow> int \<Rightarrow> int \<Rightarrow> bool \<Rightarrow> bool
     \<Rightarrow> (py_error + ChunkFeature list) option" where
  "convert_examples_to_features u examples tk max_seq_length doc_stride max_query_length
       is_training append_history =
     map_option (map_sum id snd)
       (examples_loop u tk max_seq_length doc_stride max_query_length is_training
          append_history (enumerate 0 examples) (1000000000, []))"

subsection \<open>Python strings\<close>

text \<open>\<^verbatim>\<open>sep.join(xs)\<close>.\<close>

fun join :: "string \<Rightarrow> string list \<Rightarrow> string" where
  "join sep [] = []"
| "join sep [x] = x"
| "join sep (x # y # ys) = x @ sep @ join sep (y # ys)"

text \<open>\<^verbatim>\<open>s.replace(old, new)\<close>: the occurrences of \<open>old\<close> are replaced from the left
  and do not overlap; an empty \<open>old\<close> matches before every character and at the end.\<close>

function replace :: "string \<Rightarrow> string \<Rightarrow> string \<Rightarrow> string" where
  "replace old new [] = (if old = [] then new else [])"
| "replace old new (c # cs) =
     (if old = [] then new @ c # replace old new cs
      else if take (length old) (c # cs) = old
      then new @ replace old new (drop (length old - 1) cs)
      else c # replace old new cs)"
  by pat_completeness auto
termination
  by (relation "measure (\<lambda>(old, new, s). length s)") auto

text \<open>The characters that \<^verbatim>\<open>str.strip()\<close> and \<^verbatim>\<open>str.split()\<close> treat as white
  space, among the one-byte characters.\<close>

definition is_space :: "char \<Rightarrow> bool" where
  "is_space c = (c \<in> {CHR '' '', CHR 0x09, CHR 0x0A, CHR 0x0B, CHR 0x0C, CHR 0x0D,
                       CHR 0x1C, CHR 0x1D, CHR 0x1E, CHR 0x1F})"

definition strip :: "string \<Rightarrow> string" where
  "strip s = rev (dropWhile is_space (rev (dropWhile is_space s)))"

text \<open>\<^verbatim>\<open>s.split()\<close>: the maximal runs of characters that are not white space.
  \<open>cur\<close> is the run being read.\<close>

fun split_from :: "string \<Rightarrow> string \<Rightarrow> string list" where
  "split_from cur [] = (if cur = [] then [] else [cur])"
| "split_from cur (c # cs) =
     (if is_space c then (if cur = [] then split_from [] cs else cur # split_from [] cs)
      else split_from (cur @ [c]) cs)"

definition split :: "string \<Rightarrow> string list" where
  "split s = split_from [] s"

subsection \<open>The decoder: \<^verbatim>\<open>make_predictions\<close>\<close>

text \<open>The two yes/no score arrays have shape \<^verbatim>\<open>(2,)\<close> (lines 239 and 240): they
  are pairs, \<open>fst\<close> is index 0 and \<open>snd\<close> is index 1.\<close>

record RawResult =
  result_unique_id :: int
  start_logits :: "real list"
  end_logits :: "real list"
  yes_no_flag_logits :: "real \<times> real"
  yes_no_ans_logits :: "real \<times> real"

record PrelimPrediction =
  feature_index :: nat
  start_index :: int
  end_index :: int
  pred_text :: "string option"
  logit :: real

record NbestPrediction =
  nbest_text :: "string option"
  nbest_logit :: real

text \<open>\<^verbatim>\<open>np.argmax\<close> on an array of two scores: the first index of the maximum.\<close>

definition argmax :: "real \<times> real \<Rightarrow> nat" where
  "argmax p = (if fst p < snd p then 1 else 0)"

text \<open>Line 222: the dictionary from unique ids to results; a later result with
  the same id replaces the earlier one.\<close>

definition unique_id_to_result :: "RawResult list \<Rightarrow> (int \<times> RawResult) list" where
  "unique_id_to_result all_results =
     foldl (\<lambda>d r. AList.update (result_unique_id r) r d) [] all_results"

text \<open>Lines 261 to 287: the loop over the end indexes, for one start index.\<close>

fun end_loop ::
  "ChunkFeature \<Rightarrow> RawResult \<Rightarrow> nat \<Rightarrow> int \<Rightarrow> nat \<Rightarrow> nat list \<Rightarrow> PrelimPrediction list
     \<Rightarrow> py_error + PrelimPrediction list" where
  "end_loop feature result fi max_answer_length si [] prelim = Inr prelim"
| "end_loop feature result fi max_answer_length si (ei # rest) prelim =
     (if si \<ge> length (tokens feature) then
        end_loop feature result fi max_answer_length si rest prelim
      else if ei \<ge> length (tokens feature) then
        end_loop feature result fi max_answer_length si rest prelim
      else if map_of (token_to_orig_map feature) si = None then
        end_loop feature result fi max_answer_length si rest prelim
      else if map_of (token_to_orig_map feature) ei = None then
        end_loop feature result fi max_answer_length si rest prelim
      else if \<not> (case map_of (token_is_max_context feature) si of
                    None \<Rightarrow> False | Some b \<Rightarrow> b) then
        end_loop feature result fi max_answer_length si rest prelim
      else if ei < si then
        end_loop feature result fi max_answer_length si rest prelim
      else if int ei - int si + 1 > max_answer_length then
        end_loop feature result fi max_answer_length si rest prelim
      else
        (case py_get (start_logits result) (int si) of
           Inl e \<Rightarrow> Inl e
         | Inr sl \<Rightarrow>
            (case py_get (end_logits result) (int ei) of
               Inl e \<Rightarrow> Inl e
             | Inr el \<Rightarrow>
                 end_loop feature result fi max_answer_length si rest
                   (prelim @
                      [\<lparr>feature_index = fi, start_index = int si, end_index = int ei,
                        pred_text = None,
                        logit = fst (yes_no_flag_logits result) + sl + el\<rparr>]))))"

text \<open>Line 260: the loop over the start indexes.\<close>

fun start_loop ::
  "ChunkFeature \<Rightarrow> RawResult \<Rightarrow> nat \<Rightarrow> int \<Rightarrow> nat list \<Rightarrow> nat list \<Rightarrow> PrelimPrediction list
     \<Rightarrow> py_error + PrelimPrediction list" where
  "start_loop feature result fi max_answer_length [] end_indexes prelim = Inr prelim"
| "start_loop feature result fi max_answer_length (si # rest) end_indexes prelim =
     (case end_loop feature result fi max_answer_length si end_indexes prelim of
        Inl e \<Rightarrow> Inl e
      | Inr prelim1 \<Rightarrow>
          start_loop feature result fi max_answer_length rest end_indexes prelim1)"

text \<open>Lines 239 to 287: what one chunk adds to \<^verbatim>\<open>prelim_predictions\<close>.\<close>

definition feature_prelims ::
  "qa_util \<Rightarrow> int \<Rightarrow> int \<Rightarrow> nat \<Rightarrow> ChunkFeature \<Rightarrow> RawResult \<Rightarrow> PrelimPrediction list
     \<Rightarrow> py_error + PrelimPrediction list" where
  "feature_prelims u n_best_size max_answer_length fi feature result prelim =
     (if argmax (yes_no_flag_logits result) = 1 then
        (if argmax (yes_no_ans_logits result) = 1 then
           Inr (prelim @
                  [\<lparr>feature_index = fi, start_index = - 1, end_index = - 1,
                    pred_text = Some ''yes'',
                    logit = snd (yes_no_flag_logits result) + snd (yes_no_ans_logits result)\<rparr>])
         else
           Inr (prelim @
                  [\<lparr>feature_index = fi, start_index = - 1, end_index = - 1,
                    pred_text = Some ''no'',
                    logit = snd (yes_no_flag_logits result) + fst (yes_no_ans_logits result)\<rparr>]))
      else
        start_loop feature result fi max_answer_length
          (get_best_indexes u (start_logits result) n_best_size)
          (get_best_indexes u (end_logits result) n_best_size) prelim)"

text \<open>Line 235: the loop over the chunks of one example. A chunk without a
  result raises \<open>KeyError\<close> (line 236).\<close>

fun features_loop ::
  "qa_util \<Rightarrow> (int \<times> RawResult) list \<Rightarrow> int \<Rightarrow> int \<Rightarrow> (nat \<times> ChunkFeature) list
     \<Rightarrow> PrelimPrediction list \<Rightarrow> py_error + PrelimPrediction list" where
  "features_loop u results n_best_size max_answer_length [] prelim = Inr prelim"
| "features_loop u results n_best_size max_answer_length ((fi, feature) # rest) prelim =
     (case map_of results (unique_id feature) of
        None \<Rightarrow> Inl KeyError
      | Some result \<Rightarrow>
         (case feature_prelims u n_best_size max_answer_length fi feature result prelim of
            Inl e \<Rightarrow> Inl e
          | Inr prelim1 \<Rightarrow>
              features_loop u results n_best_size max_answer_length rest prelim1))"

text \<open>Lines 305 to 325: the text of a candidate. A key that is not in
  \<^verbatim>\<open>token_to_orig_map\<close> raises \<open>KeyError\<close>.\<close>

definition orig_lookup :: "ChunkFeature \<Rightarrow> int \<Rightarrow> py_error + nat" where
  "orig_lookup feature i =
     (if i < 0 then Inl KeyError
      else case map_of (token_to_orig_map feature) (nat i) of
             None \<Rightarrow> Inl KeyError | Some v \<Rightarrow> Inr v)"

definition final_text_of ::
  "qa_util \<Rightarrow> bool \<Rightarrow> bool \<Rightarrow> CoQAExample \<Rightarrow> ChunkFeature list \<Rightarrow> PrelimPrediction
     \<Rightarrow> py_error + string option" where
  "final_text_of u do_lower_case verbose_logging example features pred =
     (case py_get features (int (feature_index pred)) of
        Inl e \<Rightarrow> Inl e
      | Inr feature \<Rightarrow>
         (if start_index pred = - 1 \<or> end_index pred = - 1 then Inr (pred_text pred)
          else
            (let tok_tokens = slice (tokens feature) (start_index pred) (end_index pred + 1)
             in case orig_lookup feature (start_index pred) of
                  Inl e \<Rightarrow> Inl e
                | Inr orig_doc_start \<Rightarrow>
                   (case orig_lookup feature (end_index pred) of
                      Inl e \<Rightarrow> Inl e
                    | Inr orig_doc_end \<Rightarrow>
                       (let orig_tokens = slice (doc_tokens example) (int orig_doc_start)
                                            (int orig_doc_end + 1);
                            tok_text0 = join '' '' tok_tokens;
                            tok_text1 = replace '' ##'' [] tok_text0;
                            tok_text2 = replace ''##'' [] tok_text1;
                            tok_text3 = strip tok_text2;
                            tok_text = join '' '' (split tok_text3);
                            orig_text = join '' '' orig_tokens
                        in Inr (Some (get_final_text u tok_text orig_text
                                        do_lower_case verbose_logging)))))))"

text \<open>
  Lines 300 to 338: the loop that keeps the distinct texts. The state is
  \<open>(seen_predictions, nbest)\<close>; \<open>final_text\<close> gives the text of a candidate.
\<close>

fun nbest_loop ::
  "(PrelimPrediction \<Rightarrow> py_error + string option) \<Rightarrow> int \<Rightarrow> bool \<Rightarrow> PrelimPrediction list
     \<Rightarrow> (string option \<times> bool) list \<times> NbestPrediction list
     \<Rightarrow> py_error + NbestPrediction list" where
  "nbest_loop final_text n_best_size validate_flag [] (seen_predictions, nbest) = Inr nbest"
| "nbest_loop final_text n_best_size validate_flag (pred # rest) (seen_predictions, nbest) =
     (if int (length nbest) \<ge> n_best_size then Inr nbest
      else
        (case final_text pred of
           Inl e \<Rightarrow> Inl e
         | Inr t \<Rightarrow>
            (if map_of seen_predictions t \<noteq> None then
               nbest_loop final_text n_best_size validate_flag rest (seen_predictions, nbest)
             else if validate_flag then
               Inr (nbest @ [\<lparr>nbest_text = t, nbest_logit = logit pred\<rparr>])
             else
               nbest_loop final_text n_best_size validate_flag rest
                 (AList.update t True seen_predictions,
                  nbest @ [\<lparr>nbest_text = t, nbest_logit = logit pred\<rparr>]))))"

text \<open>Lines 232 to 292: the candidates of one example, best logit first. The
  chunks of the example are those of \<^verbatim>\<open>all_features\<close> with its index, in their
  order; the sort is stable.\<close>

definition example_features :: "ChunkFeature list \<Rightarrow> nat \<Rightarrow> ChunkFeature list" where
  "example_features all_features ex_index =
     filter (\<lambda>f. example_index f = ex_index) all_features"

definition example_prelims ::
  "qa_util \<Rightarrow> ChunkFeature list \<Rightarrow> (int \<times> RawResult) list \<Rightarrow> int \<Rightarrow> int \<Rightarrow> nat
     \<Rightarrow> py_error + PrelimPrediction list" where
  "example_prelims u all_features results n_best_size max_answer_length ex_index =
     (case features_loop u results n_best_size max_answer_length
             (enumerate 0 (example_features all_features ex_index)) [] of
        Inl e \<Rightarrow> Inl e
      | Inr prelim \<Rightarrow> Inr (sort_key (\<lambda>x. - logit x) prelim))"

text \<open>Lines 300 to 346: the ranked candidates of one example.\<close>

definition example_nbest ::
  "qa_util \<Rightarrow> ChunkFeature list \<Rightarrow> (int \<times> RawResult) list \<Rightarrow> int \<Rightarrow> int \<Rightarrow> bool \<Rightarrow> bool
     \<Rightarrow> bool \<Rightarrow> nat \<Rightarrow> CoQAExample \<Rightarrow> py_error + NbestPrediction list" where
  "example_nbest u all_features results n_best_size max_answer_length do_lower_case
       verbose_logging validate_flag ex_index example =
     (case example_prelims u all_features results n_best_size max_answer_length ex_index of
        Inl e \<Rightarrow> Inl e
      | Inr prelim_predictions \<Rightarrow>
         (case nbest_loop
                 (final_text_of u do_lower_case verbose_logging example
                    (example_features all_features ex_index))
                 n_best_size validate_flag prelim_predictions ([], []) of
            Inl e \<Rightarrow> Inl e
          | Inr nbest0 \<Rightarrow>
             (let nbest = (if nbest0 = []
                           then [\<lparr>nbest_text = Some ''empty'', nbest_logit = 0\<rparr>]
                           else nbest0)
              in if \<not> length nbest \<ge> 1 then Inl AssertionError else Inr nbest)))"

text \<open>Lines 348 to 387: the output. In validation mode it is the dictionary
  from \<open>(paragraph_id, turn_id)\<close> to the first text; otherwise the two lists.\<close>

record NbestJson =
  json_text :: "string option"
  probability :: real
  json_logit :: real

record Prediction =
  prediction_id :: string
  prediction_turn_id :: int
  answer :: "string option"

record NbestRecord =
  nbest_id :: string
  nbest_turn_id :: int
  answers :: "NbestJson list"

datatype predictions =
  ValidatePredictions "((string \<times> int) \<times> string option) list"
| AllPredictions "Prediction list" "NbestRecord list"

fun nbest_json_loop ::
  "real list \<Rightarrow> (nat \<times> NbestPrediction) list \<Rightarrow> NbestJson list \<Rightarrow> py_error + NbestJson list" where
  "nbest_json_loop probs [] nbest_json = Inr nbest_json"
| "nbest_json_loop probs ((i, entry) # rest) nbest_json =
     (case py_get probs (int i) of
        Inl e \<Rightarrow> Inl e
      | Inr p \<Rightarrow>
          nbest_json_loop probs rest
            (nbest_json @
               [\<lparr>json_text = nbest_text entry, probability = p,
                 json_logit = nbest_logit entry\<rparr>]))"

text \<open>Line 231: the loop over the examples. The state is
  \<open>(validate_predictions, all_predictions, all_nbest_json)\<close>.\<close>

fun predictions_loop ::
  "qa_util \<Rightarrow> ChunkFeature list \<Rightarrow> (int \<times> RawResult) list \<Rightarrow> int \<Rightarrow> int \<Rightarrow> bool \<Rightarrow> bool
     \<Rightarrow> bool \<Rightarrow> (nat \<times> CoQAExample) list
     \<Rightarrow> ((string \<times> int) \<times> string option) list \<times> Prediction list \<times> NbestRecord list
     \<Rightarrow> py_error + ((string \<times> int) \<times> string option) list \<times> Prediction list \<times> NbestRecord list"
  where
  "predictions_loop u all_features results n_best_size max_answer_length do_lower_case
       verbose_logging validate_flag [] st = Inr st"
| "predictions_loop u all_features results n_best_size max_answer_length do_lower_case
       verbose_logging validate_flag ((ex_index, example) # rest)
       (validate_predictions, all_predictions, all_nbest_json) =
     (case example_nbest u all_features results n_best_size max_answer_length do_lower_case
             verbose_logging validate_flag ex_index example of
        Inl e \<Rightarrow> Inl e
      | Inr nbest \<Rightarrow>
         (if validate_flag then
            (case py_get nbest 0 of
               Inl e \<Rightarrow> Inl e
             | Inr best \<Rightarrow>
                 predictions_loop u all_features results n_best_size max_answer_length
                   do_lower_case verbose_logging validate_flag rest
                   (AList.update (paragraph_id example, turn_id example) (nbest_text best)
                      validate_predictions,
                    all_predictions, all_nbest_json))
          else
            (case nbest_json_loop (compute_softmax u (map nbest_logit nbest))
                    (enumerate 0 nbest) [] of
               Inl e \<Rightarrow> Inl e
             | Inr nbest_json \<Rightarrow>
                (if \<not> length nbest_json \<ge> 1 then Inl AssertionError
                 else
                   (case py_get nbest_json 0 of
                      Inl e \<Rightarrow> Inl e
                    | Inr best \<Rightarrow>
                        predictions_loop u all_features results n_best_size max_answer_length
                          do_lower_case verbose_logging validate_flag rest
                          (validate_predictions,
                           all_predictions @
                             [\<lparr>prediction_id = paragraph_id example,
                               prediction_turn_id = turn_id example,
                               answer = json_text best\<rparr>],
                           all_nbest_json @
                             [\<lparr>nbest_id = paragraph_id example,
                               nbest_turn_id = turn_id example,
                               answers = nbest_json\<rparr>]))))))"

definition make_predictions ::
  "qa_util \<Rightarrow> CoQAExample list \<Rightarrow> ChunkFeature list \<Rightarrow> RawResult list \<Rightarrow> int \<Rightarrow> int \<Rightarrow> bool
     \<Rightarrow> bool \<Rightarrow> bool \<Rightarrow> py_error + predictions" where
  "make_predictions u all_examples all_features all_results n_best_size max_answer_length
       do_lower_case verbose_logging validate_flag =
     (case predictions_loop u all_features (unique_id_to_result all_results) n_best_size
             max_answer_length do_lower_case verbose_logging validate_flag
             (enumerate 0 all_examples) ([], [], []) of
        Inl e \<Rightarrow> Inl e
      | Inr (validate_predictions, all_predictions, all_nbest_json) \<Rightarrow>
          Inr (if validate_flag then ValidatePredictions validate_predictions
               else AllPredictions all_predictions all_nbest_json))"

subsection \<open>Notions used to state the properties\<close>

text \<open>The lists of windows that the sliding-window loop can leave behind when it
  is entered at offset \<open>s\<close>: a relation between the offset and the list.\<close>

fun windows_from :: "int \<Rightarrow> int \<Rightarrow> int \<Rightarrow> int \<Rightarrow> DocSpan list \<Rightarrow> bool" where
  "windows_from n B S s [] = (\<not> s < n)"
| "windows_from n B S s (w # ws) =
     (s < n \<and> w = \<lparr>start = s, span_length = min B (n - s)\<rparr> \<and>
      (if s + min B (n - s) = n then ws = []
       else windows_from n B S (s + min (min B (n - s)) S) ws))"


text \<open>The quotient rounded up, on integers.\<close>

definition ceil_div :: "int \<Rightarrow> int \<Rightarrow> int" where
  "ceil_div a b = - ((- a) div b)"


text \<open>The test that a pair of a start and an end position has to pass to become a
  candidate, and the candidate it becomes.\<close>

definition valid_span :: "ChunkFeature \<Rightarrow> int \<Rightarrow> nat \<Rightarrow> nat \<Rightarrow> bool" where
  "valid_span feature max_answer_length si ei \<longleftrightarrow>
     si < length (tokens feature) \<and> ei < length (tokens feature) \<and>
     map_of (token_to_orig_map feature) si \<noteq> None \<and>
     map_of (token_to_orig_map feature) ei \<noteq> None \<and>
     map_of (token_is_max_context feature) si = Some True \<and>
     si \<le> ei \<and> int ei - int si + 1 \<le> max_answer_length"

definition span_prediction :: "RawResult \<Rightarrow> nat \<Rightarrow> nat \<Rightarrow> nat \<Rightarrow> PrelimPrediction" where
  "span_prediction result fi si ei =
     \<lparr>feature_index = fi, start_index = int si, end_index = int ei, pred_text = None,
      logit = fst (yes_no_flag_logits result) + start_logits result ! si + end_logits result ! ei\<rparr>"

text \<open>The entries of a list whose text is not in \<open>seen\<close> and has not occurred
  earlier in the list.\<close>

fun keep_first_texts :: "string option set \<Rightarrow> NbestPrediction list \<Rightarrow> NbestPrediction list" where
  "keep_first_texts seen [] = []"
| "keep_first_texts seen (x # xs) =
     (if nbest_text x \<in> seen then keep_first_texts seen xs
      else x # keep_first_texts (insert (nbest_text x) seen) xs)"

text \<open>What the loop over the chunks guarantees of a candidate: it names one of
  the chunks, and it is a yes/no candidate with a text or a span that passed
  the test.\<close>

definition candidate_ok :: "ChunkFeature list \<Rightarrow> int \<Rightarrow> PrelimPrediction \<Rightarrow> bool" where
  "candidate_ok features max_answer_length p \<longleftrightarrow>
     feature_index p < length features \<and>
     (start_index p = - 1 \<and> end_index p = - 1 \<and> pred_text p \<noteq> None \<or>
      (\<exists>si ei. start_index p = int si \<and> end_index p = int ei \<and>
         valid_span (features ! feature_index p) max_answer_length si ei))"

subsection \<open>Concrete inputs\<close>

text \<open>
  Stand-ins for the tokenizer and for the helpers of \<^verbatim>\<open>qa_util\<close>, used only to
  run the code on concrete inputs: a tokenizer that splits a word into its
  characters, a span improver that keeps the span, a context check that always
  holds, the positions of the \<open>n\<close> highest scores (stable, highest first), a
  text aligner that returns the tokenized text, and a softmax stand-in that
  returns the scores.
\<close>

definition char_tokenizer :: tokenizer where
  "char_tokenizer =
     \<lparr>tokenize = map (\<lambda>c. [c]), convert_tokens_to_ids = map (\<lambda>t. int (length t))\<rparr>"

definition test_util :: qa_util where
  "test_util =
     \<lparr>improve_answer_span = (\<lambda>doc s e tk answer. (s, e)),
      check_is_max_context = (\<lambda>spans i pos. True),
      get_best_indexes =
        (\<lambda>logits n. take (nat n) (map fst (sort_key (\<lambda>x. - snd x) (enumerate 0 logits)))),
      get_final_text = (\<lambda>tok_text orig_text lower verbose. tok_text),
      compute_softmax = (\<lambda>scores. scores)\<rparr>"

text \<open>A document of two words, \<open>ab cd\<close>, with one question and the gold answer
  \<open>cd\<close> (word 1).\<close>

definition example_ab_cd :: CoQAExample where
  "example_ab_cd =
     \<lparr>question_texts = [''q''], doc_tokens = [''ab'', ''cd''], orig_answer_text = ''cd'',
      ex_start_position = Some 1, ex_end_position = Some 1,
      ex_yes_no_flag = Some 0, ex_yes_no_ans = Some 0,
      paragraph_id = ''p'', turn_id = 1\<rparr>"

text \<open>The padding invariant of a chunk.\<close>

definition padded_to :: "int \<Rightarrow> ChunkFeature \<Rightarrow> bool" where
  "padded_to max_seq_length f \<longleftrightarrow>
     int (length (input_ids f)) = max_seq_length \<and>
     int (length (input_mask f)) = max_seq_length \<and>
     int (length (segment_ids f)) = max_seq_length"

text \<open>A chunk of the document \<open>ab cd\<close> (its first window for budget 2), a result
  that makes it span-extractive and one that makes it a yes/no chunk.\<close>

definition chunk_ab :: ChunkFeature where
  "chunk_ab =
     \<lparr>unique_id = 1000000000, example_index = 0, doc_span_index = 0,
      tokens = [''[CLS]'', ''q'', ''[SEP]'', ''a'', ''b'', ''[SEP]''],
      token_to_orig_map = [(3, 0), (4, 0)],
      token_is_max_context = [(3, True), (4, True)],
      input_ids = [5, 1, 5, 1, 1, 5], input_mask = [1, 1, 1, 1, 1, 1],
      segment_ids = [0, 0, 0, 1, 1, 1],
      start_position = None, end_position = None, yes_no_flag = None, yes_no_ans = None\<rparr>"

definition result_span :: RawResult where
  "result_span =
     \<lparr>result_unique_id = 1000000000,
      start_logits = [0, 0, 0, 5, 1, 0], end_logits = [0, 0, 0, 1, 4, 0],
      yes_no_flag_logits = (1, 0), yes_no_ans_logits = (0, 0)\<rparr>"

definition result_yes :: RawResult where
  "result_yes =
     \<lparr>result_unique_id = 1000000000,
      start_logits = [0, 0, 0, 5, 1, 0], end_logits = [0, 0, 0, 1, 4, 0],
      yes_no_flag_logits = (0.1, 0.9), yes_no_ans_logits = (0.2, 0.8)\<rparr>"





section \<open>Properties of the sliding window\<close>

lemma doc_spans_loop_graph:
  "doc_spans_loop n B S s acc = Some y \<Longrightarrow> \<exists>ws. y = acc @ ws \<and> windows_from n B S s ws"
proof (induction n B S s acc y rule: doc_spans_loop.raw_induct[rotated 1, consumes 1])
  case (1 loop n B S s acc y)
  show ?case
  proof (cases "s < n")
    case False
    with 1(2) show ?thesis by simp
  next
    case True
    let ?len = "min B (n - s)"
    let ?w = "\<lparr>start = s, span_length = ?len\<rparr>"
    have len: "(if B < n - s then B else n - s) = ?len" by (simp add: min_def)
    from 1(2) \<open>s < n\<close> have body: "(if s + ?len = n then Some (acc @ [?w])
        else loop n B S (s + min ?len S) (acc @ [?w])) = Some y"
      unfolding Let_def len by simp
    show ?thesis
    proof (cases "s + ?len = n")
      case True
      from body have "y = acc @ [?w]" unfolding if_P[OF True] by simp
      with True \<open>s < n\<close> show ?thesis by simp
    next
      case False
      from body have "loop n B S (s + min ?len S) (acc @ [?w]) = Some y"
        unfolding if_not_P[OF False] .
      from 1(1)[OF this] obtain ws where "y = (acc @ [?w]) @ ws"
        and "windows_from n B S (s + min ?len S) ws" by blast
      with False \<open>s < n\<close> have "y = acc @ (?w # ws) \<and> windows_from n B S s (?w # ws)"
        by (auto simp: min_def split: if_splits)
      then show ?thesis by blast
    qed
  qed
qed

lemma doc_spans_loop_diverges:
  "doc_spans_loop n B S s acc = Some y \<Longrightarrow> \<not> (s < n \<and> B < n - s \<and> (B \<le> 0 \<or> S \<le> 0))"
proof (induction n B S s acc y rule: doc_spans_loop.raw_induct[rotated 1, consumes 1])
  case (1 loop n B S s acc y)
  show ?case
  proof
    assume a: "s < n \<and> B < n - s \<and> (B \<le> 0 \<or> S \<le> 0)"
    then have step: "min B S \<le> 0" by auto
    from a 1(2) have "loop n B S (s + min B S) (acc @ [\<lparr>start = s, span_length = B\<rparr>]) = Some y"
      by (simp add: Let_def)
    from 1(1)[OF this] a step show False by auto
  qed
qed

lemma doc_spans_loop_terminates:
  assumes "1 \<le> B" "1 \<le> S"
  shows "\<exists>y. doc_spans_loop n B S s acc = Some y"
proof (induction "nat (n - s)" arbitrary: s acc rule: less_induct)
  case less
  show ?case
  proof (cases "s < n \<and> B < n - s")
    case False
    then show ?thesis by (subst doc_spans_loop.simps) (auto simp: Let_def)
  next
    case True
    with assms have "nat (n - (s + min B S)) < nat (n - s)" by auto
    from less[OF this] obtain y where
      "doc_spans_loop n B S (s + min B S) (acc @ [\<lparr>start = s, span_length = B\<rparr>]) = Some y"
      by blast
    with True show ?thesis by (subst doc_spans_loop.simps) (auto simp: Let_def)
  qed
qed

lemma doc_spans_loop_fits:
  assumes "n - s \<le> B"
  shows "\<exists>y. doc_spans_loop n B S s acc = Some y"
  using assms by (subst doc_spans_loop.simps) (auto simp: Let_def)

lemma make_doc_spans_terminates_iff:
  "(\<exists>ws. make_doc_spans n B S = Some ws) \<longleftrightarrow> n \<le> 0 \<or> n \<le> B \<or> (1 \<le> B \<and> 1 \<le> S)"
proof
  assume "\<exists>ws. make_doc_spans n B S = Some ws"
  then obtain ws where "doc_spans_loop n B S 0 [] = Some ws" by (auto simp: make_doc_spans_def)
  from doc_spans_loop_diverges[OF this] show "n \<le> 0 \<or> n \<le> B \<or> (1 \<le> B \<and> 1 \<le> S)" by auto
next
  assume "n \<le> 0 \<or> n \<le> B \<or> (1 \<le> B \<and> 1 \<le> S)"
  then show "\<exists>ws. make_doc_spans n B S = Some ws"
    unfolding make_doc_spans_def
    using doc_spans_loop_fits[of n 0 B S "[]"] doc_spans_loop_terminates[of B S n 0 "[]"]
    by (cases "n \<le> 0") (auto simp: doc_spans_loop.simps)
qed


lemma windows_from_Nil_iff: "windows_from n B S s ws \<Longrightarrow> ws = [] \<longleftrightarrow> \<not> s < n"
  by (cases ws) auto

lemma windows_from_hd: "windows_from n B S s ws \<Longrightarrow> ws \<noteq> [] \<Longrightarrow> start (hd ws) = s"
  by (cases ws) auto

lemma windows_from_length:
  "windows_from n B S s ws \<Longrightarrow> w \<in> set ws \<Longrightarrow> span_length w = min B (n - start w)"
proof (induction ws arbitrary: s)
  case Nil
  then show ?case by simp
next
  case (Cons a ws)
  show ?case
  proof (cases "w = a")
    case True
    with Cons.prems show ?thesis by simp
  next
    case False
    with Cons.prems have "w \<in> set ws" and "ws \<noteq> []" by auto
    with Cons.prems have "windows_from n B S (s + min (min B (n - s)) S) ws"
      by (auto split: if_splits)
    from Cons.IH[OF this \<open>w \<in> set ws\<close>] show ?thesis .
  qed
qed

lemma windows_from_last:
  "windows_from n B S s ws \<Longrightarrow> ws \<noteq> [] \<Longrightarrow> start (last ws) + span_length (last ws) = n"
proof (induction ws arbitrary: s)
  case Nil
  then show ?case by simp
next
  case (Cons a ws)
  show ?case
  proof (cases "ws = []")
    case True
    with Cons.prems show ?thesis by (auto split: if_splits)
  next
    case False
    with Cons.prems have "windows_from n B S (s + min (min B (n - s)) S) ws"
      by (auto split: if_splits)
    from Cons.IH[OF this False] False show ?thesis by simp
  qed
qed

lemma windows_from_step:
  "windows_from n B S s ws \<Longrightarrow> Suc i < length ws \<Longrightarrow>
     start (ws ! i) + span_length (ws ! i) \<noteq> n \<and>
     start (ws ! Suc i) = start (ws ! i) + min (span_length (ws ! i)) S"
proof (induction ws arbitrary: s i)
  case Nil
  then show ?case by simp
next
  case (Cons a ws)
  from Cons.prems have ne: "ws \<noteq> []" by auto
  with Cons.prems have a: "a = \<lparr>start = s, span_length = min B (n - s)\<rparr>"
    and not_end: "s + min B (n - s) \<noteq> n"
    and tl: "windows_from n B S (s + min (min B (n - s)) S) ws"
    by (auto split: if_splits)
  show ?case
  proof (cases i)
    case 0
    from windows_from_hd[OF tl ne] ne have "start (ws ! 0) = s + min (min B (n - s)) S"
      by (simp add: hd_conv_nth)
    with 0 a not_end show ?thesis by simp
  next
    case (Suc j)
    with Cons.prems have "Suc j < length ws" by simp
    from Cons.IH[OF tl this] Suc show ?thesis by simp
  qed
qed

lemma ceil_div_ceiling: "ceil_div a b = \<lceil>real_of_int a / real_of_int b\<rceil>"
  by (simp add: ceil_div_def ceiling_divide_eq_div)

lemma ceil_div_one: 
  assumes "0 < a" "a \<le> m" shows "ceil_div a m = 1"
proof -
  have "- a = m * (- 1) + (m - a)" by simp
  from int_div_pos_eq[OF this] assms have "(- a) div m = - 1" by simp
  then show ?thesis by (simp add: ceil_div_def)
qed

lemma ceil_div_shift: 
  assumes "0 < m" shows "ceil_div (a - m) m = ceil_div a m - 1"
proof -
  have "(- a + m) div m = (- a) div m + 1"
    using assms by (intro div_add_self2) simp
  moreover have "- (a - m) = - a + m" by simp
  ultimately show ?thesis unfolding ceil_div_def by (simp only:)
qed

lemma windows_from_count:
  assumes "1 \<le> B" "1 \<le> S"
  shows "windows_from n B S s ws \<Longrightarrow>
     int (length ws) = (if n - s \<le> 0 then 0 else if n - s \<le> B then 1
                        else ceil_div (n - s - B) (min B S) + 1)"
proof (induction ws arbitrary: s)
  case Nil
  then show ?case by simp
next
  case (Cons a ws)
  from Cons.prems have "s < n" by simp
  show ?case
  proof (cases "n - s \<le> B")
    case True
    with Cons.prems \<open>s < n\<close> have "ws = []" by (auto split: if_splits)
    with True \<open>s < n\<close> show ?thesis by simp
  next
    case False
    let ?m = "min B S"
    from assms have m: "0 < ?m" by simp
    from False have len: "min B (n - s) = B" by simp
    from False Cons.prems have tl: "windows_from n B S (s + ?m) ws"
      by (auto simp: len split: if_splits)
    have pos: "0 < n - (s + ?m)" using False by auto
    show ?thesis
    proof (cases "n - (s + ?m) \<le> B")
      case True
      with Cons.IH[OF tl] pos have "int (length ws) = 1" by simp
      moreover from True False have "ceil_div (n - s - B) ?m = 1"
        by (intro ceil_div_one) auto
      ultimately show ?thesis using False \<open>s < n\<close> by simp
    next
      case F2: False
      with Cons.IH[OF tl] pos have "int (length ws) = ceil_div (n - (s + ?m) - B) ?m + 1"
        by simp
      moreover have "n - (s + ?m) - B = (n - s - B) - ?m" by simp
      ultimately have "int (length ws) = ceil_div (n - s - B) ?m"
        using ceil_div_shift[OF m, of "n - s - B"] by simp
      then show ?thesis using False \<open>s < n\<close> by simp
    qed
  qed
qed

lemma make_doc_spans_windows:
  "make_doc_spans n B S = Some ws \<Longrightarrow> windows_from n B S 0 ws"
  unfolding make_doc_spans_def by (drule doc_spans_loop_graph) simp


lemma scenario_8_4_2:
  "make_doc_spans 8 4 2 =
     Some [\<lparr>start = 0, span_length = 4\<rparr>, \<lparr>start = 2, span_length = 4\<rparr>,
           \<lparr>start = 4, span_length = 4\<rparr>]"
  by (simp add: make_doc_spans_def doc_spans_loop.simps Let_def)


text \<open>
  Claim C3. The windows start at offset 0; each window has length
  \<open>min B (n - start)\<close>; a window that does not reach the end of the document is
  followed by one whose start is larger by \<open>min length stride\<close>, and the last
  window reaches the end. For a document of 8 subword tokens, budget 4 and
  stride 2 the windows are \<open>(0, 4)\<close>, \<open>(2, 4)\<close> and \<open>(4, 4)\<close>.
\<close>

theorem sliding_window_shape:
  "(make_doc_spans n B S = Some ws \<longrightarrow>
      (ws \<noteq> [] \<longrightarrow> start (hd ws) = 0) \<and>
      (\<forall>w \<in> set ws. span_length w = min B (n - start w)) \<and>
      (\<forall>i. Suc i < length ws \<longrightarrow>
           start (ws ! i) + span_length (ws ! i) \<noteq> n \<and>
           start (ws ! Suc i) = start (ws ! i) + min (span_length (ws ! i)) S) \<and>
      (ws \<noteq> [] \<longrightarrow> start (last ws) + span_length (last ws) = n)) \<and>
   make_doc_spans 8 4 2 =
     Some [\<lparr>start = 0, span_length = 4\<rparr>, \<lparr>start = 2, span_length = 4\<rparr>,
           \<lparr>start = 4, span_length = 4\<rparr>]"
proof (intro conjI impI)
  assume "make_doc_spans n B S = Some ws"
  then have w: "windows_from n B S 0 ws" by (rule make_doc_spans_windows)
  show "ws \<noteq> [] \<Longrightarrow> start (hd ws) = 0" by (rule windows_from_hd[OF w])
  show "\<forall>w \<in> set ws. span_length w = min B (n - start w)"
    using windows_from_length[OF w] by blast
  show "\<forall>i. Suc i < length ws \<longrightarrow>
           start (ws ! i) + span_length (ws ! i) \<noteq> n \<and>
           start (ws ! Suc i) = start (ws ! i) + min (span_length (ws ! i)) S"
    using windows_from_step[OF w] by blast
  show "ws \<noteq> [] \<Longrightarrow> start (last ws) + span_length (last ws) = n"
    by (rule windows_from_last[OF w])
next
  show "make_doc_spans 8 4 2 =
     Some [\<lparr>start = 0, span_length = 4\<rparr>, \<lparr>start = 2, span_length = 4\<rparr>,
           \<lparr>start = 4, span_length = 4\<rparr>]"
    by (rule scenario_8_4_2)
qed

theorem sliding_window_shape_witness:
  "make_doc_spans 8 4 2 =
     Some [\<lparr>start = 0, span_length = 4\<rparr>, \<lparr>start = 2, span_length = 4\<rparr>,
           \<lparr>start = 4, span_length = 4\<rparr>] \<and>
   map (\<lambda>w. (start w, start w + span_length w - 1))
     [\<lparr>start = 0, span_length = 4\<rparr>, \<lparr>start = 2, span_length = 4\<rparr>,
      \<lparr>start = 4, span_length = 4\<rparr>] = [(0, 3), (2, 5), (4, 7)] \<and>
   start (last [\<lparr>start = 0, span_length = 4\<rparr>, \<lparr>start = 2, span_length = 4\<rparr>,
                \<lparr>start = 4, span_length = 4\<rparr>])
     + span_length (last [\<lparr>start = 0, span_length = 4\<rparr>, \<lparr>start = 2, span_length = 4\<rparr>,
                          \<lparr>start = 4, span_length = 4\<rparr>]) = 8"
  using sliding_window_shape [of 8 4 2
      "[\<lparr>start = 0, span_length = 4\<rparr>, \<lparr>start = 2, span_length = 4\<rparr>,
        \<lparr>start = 4, span_length = 4\<rparr>]"]
  by simp


text \<open>
  The count \<open>\<lceil>(L - B) / S\<rceil> + 1\<close> fails in two places. An empty document gives no
  window, not one; and when the stride is larger than the budget the loop
  advances by the budget, so 10 tokens with budget 2 and stride 5 give five
  windows, not three.
\<close>

theorem window_count_counterexample:
  "make_doc_spans 0 4 2 = Some [] \<and>
   length ([] :: DocSpan list) \<noteq> 1 \<and>
   make_doc_spans 10 2 5 =
     Some [\<lparr>start = 0, span_length = 2\<rparr>, \<lparr>start = 2, span_length = 2\<rparr>,
           \<lparr>start = 4, span_length = 2\<rparr>, \<lparr>start = 6, span_length = 2\<rparr>,
           \<lparr>start = 8, span_length = 2\<rparr>] \<and>
   int (length [\<lparr>start = 0, span_length = 2\<rparr>, \<lparr>start = 2, span_length = 2\<rparr>,
           \<lparr>start = 4, span_length = 2\<rparr>, \<lparr>start = 6, span_length = 2\<rparr>,
           \<lparr>start = 8, span_length = 2\<rparr>])
     \<noteq> \<lceil>real_of_int (10 - 2) / real_of_int 5\<rceil> + 1"
proof -
  have "\<lceil>real_of_int (10 - 2) / real_of_int 5\<rceil> = ceil_div 8 5"
    by (simp add: ceil_div_ceiling)
  also have "\<dots> = 2" by (simp add: ceil_div_def)
  finally show ?thesis
    by (simp add: make_doc_spans_def doc_spans_loop.simps Let_def)
qed


text \<open>
  Claim C2, amended. For a document of \<open>L \<ge> 0\<close> subword tokens, budget \<open>B > 0\<close> and
  stride \<open>S > 0\<close> the loop returns; it produces \<open>\<lceil>(L - B) / min B S\<rceil> + 1\<close> windows
  when \<open>L > B\<close>, one window when \<open>0 < L \<le> B\<close> and none when \<open>L = 0\<close>; and when there
  is a window, the last one ends at \<open>L\<close>.
\<close>

theorem window_count:
  assumes "0 \<le> L" "0 < B" "0 < S"
  shows "\<exists>ws. make_doc_spans L B S = Some ws \<and>
           int (length ws) =
             (if L > B then \<lceil>real_of_int (L - B) / real_of_int (min B S)\<rceil> + 1
              else if L = 0 then 0 else 1) \<and>
           (ws \<noteq> [] \<longrightarrow> start (last ws) + span_length (last ws) = L)"
proof -
  from assms have "\<exists>ws. make_doc_spans L B S = Some ws"
    by (subst make_doc_spans_terminates_iff) simp
  then obtain ws where ws: "make_doc_spans L B S = Some ws" ..
  then have w: "windows_from L B S 0 ws" by (rule make_doc_spans_windows)
  from assms have "1 \<le> B" "1 \<le> S" by simp_all
  from windows_from_count[OF this w] assms
  have "int (length ws) =
          (if L > B then \<lceil>real_of_int (L - B) / real_of_int (min B S)\<rceil> + 1
           else if L = 0 then 0 else 1)"
    by (auto simp: ceil_div_ceiling)
  moreover have "ws \<noteq> [] \<longrightarrow> start (last ws) + span_length (last ws) = L"
    using windows_from_last[OF w] by blast
  ultimately show ?thesis using ws by blast
qed

theorem window_count_witness:
  "(0::int) \<le> 10 \<and> (0::int) < 2 \<and> (0::int) < 5 \<and>
   (\<exists>ws. make_doc_spans 10 2 5 = Some ws \<and> int (length ws) = 5 \<and>
      (ws \<noteq> [] \<longrightarrow> start (last ws) + span_length (last ws) = 10))"
proof -
  have "\<lceil>real_of_int (10 - 2) / real_of_int (min 2 5)\<rceil> = ceil_div 8 2"
    by (simp add: ceil_div_ceiling)
  also have "\<dots> = 4" by (simp add: ceil_div_def)
  finally show ?thesis using window_count [of 10 2 5] by simp
qed


section \<open>Properties of the chunker\<close>

lemma py_get_error: "py_get xs i = Inl e \<Longrightarrow> e = IndexError"
  by (auto simp: py_get_def split: if_splits)

lemma tokenize_doc_all:
  "snd (snd (tokenize_doc tk i ds (a, b, c))) = c @ concat (map (tokenize tk) ds)"
  by (induction ds arbitrary: i a b c) (simp_all add: Let_def)

lemma all_doc_tokens_of_concat:
  "all_doc_tokens_of tk example = concat (map (tokenize tk) (doc_tokens example))"
  by (simp add: all_doc_tokens_of_def tokenize_doc_all)

lemma pad_loop_eq:
  "pad_loop m (ids, msk, segs) =
     (ids @ replicate (nat (m - int (length ids))) 0,
      msk @ replicate (nat (m - int (length ids))) 0,
      segs @ replicate (nat (m - int (length ids))) 0)"
proof (induction m "(ids, msk, segs)" arbitrary: ids msk segs rule: pad_loop.induct)
  case (1 m ids msk segs)
  show ?case
  proof (cases "int (length ids) < m")
    case True
    then have "nat (m - int (length ids)) = Suc (nat (m - int (length (ids @ [0]))))"
      by simp
    with True 1 show ?thesis by (subst pad_loop.simps) (simp add: replicate_app_Cons_same)
  next
    case False
    then show ?thesis by (subst pad_loop.simps) simp
  qed
qed

lemma add_doc_tokens_lengths:
  "add_doc_tokens u t2o alld spans dsi ds idxs (toks, to_orig, max_ctx, segs)
     = Inr (toks1, to_orig1, max_ctx1, segs1) \<Longrightarrow>
   length toks1 = length toks + length idxs \<and> length segs1 = length segs + length idxs"
proof (induction idxs arbitrary: toks to_orig max_ctx segs)
  case Nil
  then show ?case by simp
next
  case (Cons i idxs)
  from Cons.prems obtain orig tok where
    "add_doc_tokens u t2o alld spans dsi ds idxs
       (toks @ [tok], to_orig @ [(length toks, orig)],
        max_ctx @ [(length toks, check_is_max_context u spans dsi (start ds + int i))],
        segs @ [1]) = Inr (toks1, to_orig1, max_ctx1, segs1)"
    by (auto simp: Let_def split: sum.splits)
  from Cons.IH[OF this] show ?case by simp
qed

lemma add_doc_tokens_error:
  "add_doc_tokens u t2o alld spans dsi ds idxs acc = Inl e \<Longrightarrow> e = IndexError"
proof (induction idxs arbitrary: acc)
  case Nil
  then show ?case by simp
next
  case (Cons i idxs)
  obtain toks to_orig max_ctx segs where acc: "acc = (toks, to_orig, max_ctx, segs)"
    by (cases acc) auto
  from Cons.prems show ?case unfolding acc
    by (auto simp: Let_def split: sum.splits dest: py_get_error Cons.IH)
qed



lemma training_labels_error:
  "training_labels is_training example query_tokens gold ds = Inl e \<Longrightarrow> e = TypeError"
  by (auto simp: training_labels_def Let_def split: if_splits option.splits)

lemma build_chunk_unfold:
  assumes "add_doc_tokens u t2o alld spans dsi ds [0..<nat (span_length ds)]
               (''[CLS]'' # query_tokens @ [''[SEP]''], [], [],
                0 # map (\<lambda>t. 0) query_tokens @ [0]) = Inr (toks0, to_orig, max_ctx, segs0)"
    and "pad_loop max_seq_length
       (convert_tokens_to_ids tk (toks0 @ [''[SEP]'']),
        map (\<lambda>t. 1) (convert_tokens_to_ids tk (toks0 @ [''[SEP]''])), segs0 @ [1])
     = (ids, msk, segs)"
  shows "build_chunk u tk max_seq_length is_training example ex_index query_tokens t2o alld
             gold spans uid dsi ds =
     (if int (length ids) \<noteq> max_seq_length \<or> int (length msk) \<noteq> max_seq_length
         \<or> int (length segs) \<noteq> max_seq_length then Inl AssertionError
      else case training_labels is_training example query_tokens gold ds of
                  Inl e \<Rightarrow> Inl e
                | Inr None \<Rightarrow> Inr None
                | Inr (Some (sp, ep, flag, ans)) \<Rightarrow>
                    Inr (Some
                      \<lparr>unique_id = uid, example_index = ex_index, doc_span_index = dsi,
                       tokens = toks0 @ [''[SEP]''], token_to_orig_map = to_orig,
                       token_is_max_context = max_ctx,
                       input_ids = ids, input_mask = msk, segment_ids = segs,
                       start_position = sp, end_position = ep,
                       yes_no_flag = flag, yes_no_ans = ans\<rparr>))"
  unfolding build_chunk_def assms(1) by (simp add: Let_def assms(2))

lemma build_chunk_lengths:
  assumes "build_chunk u tk max_seq_length is_training example ex_index query_tokens t2o alld
             gold spans uid dsi ds = Inr (Some f)"
  shows "int (length (input_ids f)) = max_seq_length \<and>
         int (length (input_mask f)) = max_seq_length \<and>
         int (length (segment_ids f)) = max_seq_length"
proof (cases "add_doc_tokens u t2o alld spans dsi ds [0..<nat (span_length ds)]
               (''[CLS]'' # query_tokens @ [''[SEP]''], [], [],
                0 # map (\<lambda>t. 0) query_tokens @ [0])")
  case (Inl e)
  with assms show ?thesis by (simp add: build_chunk_def)
next
  case (Inr r)
  obtain toks0 to_orig max_ctx segs0 where r: "r = (toks0, to_orig, max_ctx, segs0)"
    by (cases r) auto
  obtain ids msk segs where p:
    "pad_loop max_seq_length
       (convert_tokens_to_ids tk (toks0 @ [''[SEP]'']),
        map (\<lambda>t. 1) (convert_tokens_to_ids tk (toks0 @ [''[SEP]''])), segs0 @ [1])
     = (ids, msk, segs)"
    by (cases "pad_loop max_seq_length
       (convert_tokens_to_ids tk (toks0 @ [''[SEP]'']),
        map (\<lambda>t. 1) (convert_tokens_to_ids tk (toks0 @ [''[SEP]''])), segs0 @ [1])") auto
  from assms show ?thesis
    unfolding build_chunk_unfold[OF Inr[unfolded r] p]
    by (cases "training_labels is_training example query_tokens gold ds")
       (auto split: if_splits option.splits)
qed

lemma build_chunk_no_assertion_error:
  assumes ids: "\<forall>ts. length (convert_tokens_to_ids tk ts) = length ts"
    and fits: "int (length query_tokens) + 3 + int (nat (span_length ds)) \<le> max_seq_length"
  shows "build_chunk u tk max_seq_length is_training example ex_index query_tokens t2o alld
           gold spans uid dsi ds \<noteq> Inl AssertionError"
proof (cases "add_doc_tokens u t2o alld spans dsi ds [0..<nat (span_length ds)]
               (''[CLS]'' # query_tokens @ [''[SEP]''], [], [],
                0 # map (\<lambda>t. 0) query_tokens @ [0])")
  case (Inl e)
  from add_doc_tokens_error[OF this] Inl show ?thesis by (simp add: build_chunk_def)
next
  case (Inr r)
  obtain toks0 to_orig max_ctx segs0 where r: "r = (toks0, to_orig, max_ctx, segs0)"
    by (cases r) auto
  from add_doc_tokens_lengths[OF Inr[unfolded r]]
  have l1: "length toks0 = length query_tokens + 2 + nat (span_length ds)"
    and l2: "length segs0 = length query_tokens + 2 + nat (span_length ds)"
    by simp_all
  let ?ids0 = "convert_tokens_to_ids tk (toks0 @ [''[SEP]''])"
  let ?k = "nat (max_seq_length - int (length ?ids0))"
  from ids l1 have l3: "length ?ids0 = length query_tokens + 3 + nat (span_length ds)"
    by simp
  with fits have k: "int (length ?ids0) + int ?k = max_seq_length"
    by simp
  have l4: "length (segs0 @ [1]) = length ?ids0" using l2 l3 by simp
  have p: "pad_loop max_seq_length (?ids0, map (\<lambda>t. 1) ?ids0, segs0 @ [1])
     = (?ids0 @ replicate ?k 0, map (\<lambda>t. 1) ?ids0 @ replicate ?k 0,
        (segs0 @ [1]) @ replicate ?k 0)"
    by (rule pad_loop_eq)
  have a: "int (length (?ids0 @ replicate ?k 0)) = max_seq_length" using k by simp
  have b: "int (length (map (\<lambda>t. 1::int) ?ids0 @ replicate ?k 0)) = max_seq_length"
    using k by simp
  have c: "int (length ((segs0 @ [1]) @ replicate ?k 0)) = max_seq_length"
    using k l4 by (simp only: length_append length_replicate of_nat_add)
  show ?thesis
    unfolding build_chunk_unfold[OF Inr[unfolded r] p] 
    using training_labels_error[of is_training example query_tokens gold ds]
    by (simp only: a b c simp_thms if_False split: sum.splits option.splits prod.splits) auto
qed


lemma tok_answer_span_error:
  "tok_answer_span u tk example o2t alld = Inl e \<Longrightarrow> e = TypeError \<or> e = IndexError"
  by (auto simp: tok_answer_span_def split: option.splits sum.splits if_splits
           dest: py_get_error)

lemma convert_example_cases:
  fixes u tk max_seq_length doc_stride max_query_length is_training append_history ex_index
    example st
  defines "r \<equiv> convert_example u tk max_seq_length doc_stride max_query_length is_training
                 append_history ex_index example st"
    and "L \<equiv> int (length (all_doc_tokens_of tk example))"
    and "B \<equiv> max_tokens_for_doc_of tk max_seq_length max_query_length append_history example"
  obtains (error) e where "r = Some (Inl e)" "e = TypeError \<or> e = IndexError" "is_training"
  | (diverges) "r = None" "make_doc_spans L B doc_stride = None"
  | (spans) gold spans t2o where "make_doc_spans L B doc_stride = Some spans"
      "r = Some (spans_loop u tk max_seq_length is_training example ex_index
                   (query_tokens_of tk max_query_length append_history example) t2o
                   (all_doc_tokens_of tk example) gold spans (enumerate 0 spans) st)"
proof -
  let ?alld = "all_doc_tokens_of tk example"
  obtain t2o o2t where td:
    "tokenize_doc tk 0 (doc_tokens example) ([], [], []) = (t2o, o2t, ?alld)"
    by (cases "tokenize_doc tk 0 (doc_tokens example) ([], [], [])")
       (auto simp: all_doc_tokens_of_def)
  let ?g = "if is_training then map_sum id Some (tok_answer_span u tk example o2t ?alld)
            else Inr None"
  show thesis
  proof (cases ?g)
    case (Inl e)
    then have "r = Some (Inl e)" by (simp add: r_def convert_example_def td Let_def)
    moreover from Inl have "e = TypeError \<or> e = IndexError"
      by (cases "tok_answer_span u tk example o2t ?alld")
         (auto split: if_splits dest: tok_answer_span_error)
    moreover from Inl have "is_training" by (auto split: if_splits)
    ultimately show ?thesis by (rule error)
  next
    case (Inr gold)
    show ?thesis
    proof (cases "make_doc_spans L B doc_stride")
      case None
      with Inr have "r = None"
        by (simp add: r_def convert_example_def td Let_def L_def B_def
              max_tokens_for_doc_of_def)
      then show ?thesis using None by (rule diverges)
    next
      case (Some spans)
      with Inr have "r = Some (spans_loop u tk max_seq_length is_training example ex_index
                   (query_tokens_of tk max_query_length append_history example) t2o
                   (all_doc_tokens_of tk example) gold spans (enumerate 0 spans) st)"
        by (simp add: r_def convert_example_def td Let_def L_def B_def
              max_tokens_for_doc_of_def)
      with Some show ?thesis by (rule spans)
    qed
  qed
qed


lemma spans_loop_padded:
  "spans_loop u tk max_seq_length is_training example ex_index query_tokens t2o alld gold spans
     xs (uid, fs) = Inr (uid1, fs1) \<Longrightarrow>
   \<forall>f \<in> set fs. padded_to max_seq_length f \<Longrightarrow>
   \<forall>f \<in> set fs1. padded_to max_seq_length f"
proof (induction xs arbitrary: uid fs)
  case Nil
  then show ?case by simp
next
  case (Cons x xs)
  obtain dsi ds where x: "x = (dsi, ds)" by (cases x) auto
  show ?case
  proof (cases "build_chunk u tk max_seq_length is_training example ex_index query_tokens
                  t2o alld gold spans uid dsi ds")
    case (Inl e)
    with Cons.prems show ?thesis by (simp add: x)
  next
    case (Inr r)
    show ?thesis
    proof (cases r)
      case None
      with Inr Cons.prems(1) have "spans_loop u tk max_seq_length is_training example ex_index
          query_tokens t2o alld gold spans xs (uid, fs) = Inr (uid1, fs1)"
        by (simp add: x)
      from Cons.IH[OF this Cons.prems(2)] show ?thesis .
    next
      case (Some f)
      with Inr Cons.prems(1) have "spans_loop u tk max_seq_length is_training example ex_index
          query_tokens t2o alld gold spans xs (uid + 1, fs @ [f]) = Inr (uid1, fs1)"
        by (simp add: x)
      moreover from build_chunk_lengths[OF Inr[unfolded Some]] Cons.prems(2)
      have "\<forall>g \<in> set (fs @ [f]). padded_to max_seq_length g"
        by (auto simp: padded_to_def)
      ultimately show ?thesis by (rule Cons.IH)
    qed
  qed
qed

lemma spans_loop_no_assertion_error:
  assumes ids: "\<forall>ts. length (convert_tokens_to_ids tk ts) = length ts"
  shows "\<forall>x \<in> set xs. int (length query_tokens) + 3 + int (nat (span_length (snd x)))
                         \<le> max_seq_length \<Longrightarrow>
    spans_loop u tk max_seq_length is_training example ex_index query_tokens t2o alld gold spans
      xs st \<noteq> Inl AssertionError"
proof (induction xs arbitrary: st)
  case Nil
  then show ?case by simp
next
  case (Cons x xs)
  obtain dsi ds where x: "x = (dsi, ds)" by (cases x) auto
  obtain uid fs where st: "st = (uid, fs)" by (cases st) auto
  from Cons.prems x have fits: "int (length query_tokens) + 3 + int (nat (span_length ds))
      \<le> max_seq_length" by (auto split: if_splits)
  from Cons.prems have rest: "\<forall>x \<in> set xs. int (length query_tokens) + 3
      + int (nat (span_length (snd x))) \<le> max_seq_length" by simp
  note b = build_chunk_no_assertion_error[OF ids fits, of u is_training example ex_index
      t2o alld gold spans uid dsi]
  show ?case
  proof (cases "build_chunk u tk max_seq_length is_training example ex_index query_tokens
                  t2o alld gold spans uid dsi ds")
    case (Inl e)
    with b show ?thesis by (auto simp: x st)
  next
    case (Inr r)
    with Cons.IH[OF rest] show ?thesis by (cases r) (simp_all add: x st)
  qed
qed

lemma examples_loop_padded:
  "examples_loop u tk max_seq_length doc_stride max_query_length is_training append_history
     xs (uid, fs) = Some (Inr (uid1, fs1)) \<Longrightarrow>
   \<forall>f \<in> set fs. padded_to max_seq_length f \<Longrightarrow>
   \<forall>f \<in> set fs1. padded_to max_seq_length f"
proof (induction xs arbitrary: uid fs)
  case Nil
  then show ?case by simp
next
  case (Cons x xs)
  obtain i ex where x: "x = (i, ex)" by (cases x) auto
  let ?r = "convert_example u tk max_seq_length doc_stride max_query_length is_training
              append_history i ex (uid, fs)"
  from Cons.prems(1) obtain uid2 fs2 where r: "?r = Some (Inr (uid2, fs2))"
    and rest: "examples_loop u tk max_seq_length doc_stride max_query_length is_training
                 append_history xs (uid2, fs2) = Some (Inr (uid1, fs1))"
    by (auto simp: x split: option.splits sum.splits)
  have "\<forall>f \<in> set fs2. padded_to max_seq_length f"
  proof (cases rule: convert_example_cases[of u tk max_seq_length doc_stride max_query_length
            is_training append_history i ex "(uid, fs)"])
    case (error e)
    with r show ?thesis by simp
  next
    case diverges
    with r show ?thesis by simp
  next
    case (spans gold spans t2o)
    from spans(2) r have "spans_loop u tk max_seq_length is_training ex i
        (query_tokens_of tk max_query_length append_history ex) t2o (all_doc_tokens_of tk ex)
        gold spans (enumerate 0 spans) (uid, fs) = Inr (uid2, fs2)" by simp
    from spans_loop_padded[OF this Cons.prems(2)] show ?thesis .
  qed
  from Cons.IH[OF rest this] show ?case .
qed

lemma convert_example_no_assertion_error:
  assumes ids: "\<forall>ts. length (convert_tokens_to_ids tk ts) = length ts"
    and budget: "0 < max_tokens_for_doc_of tk max_seq_length max_query_length append_history ex"
  shows "convert_example u tk max_seq_length doc_stride max_query_length is_training
           append_history i ex st \<noteq> Some (Inl AssertionError)"
proof (cases rule: convert_example_cases[of u tk max_seq_length doc_stride max_query_length
            is_training append_history i ex st])
  case (error e)
  then show ?thesis by auto
next
  case diverges
  then show ?thesis by simp
next
  case (spans gold spans t2o)
  let ?q = "query_tokens_of tk max_query_length append_history ex"
  let ?B = "max_tokens_for_doc_of tk max_seq_length max_query_length append_history ex"
  from spans(1) have w: "windows_from (int (length (all_doc_tokens_of tk ex))) ?B doc_stride 0 spans"
    by (rule make_doc_spans_windows)
  have "\<forall>x \<in> set (enumerate 0 spans).
          int (length ?q) + 3 + int (nat (span_length (snd x))) \<le> max_seq_length"
  proof
    fix x assume "x \<in> set (enumerate 0 spans)"
    then have "fst x < length spans" "snd x = spans ! fst x"
      by (simp_all add: in_set_enumerate_eq)
    then have "snd x \<in> set spans" by simp
    from windows_from_length[OF w this] have "span_length (snd x) \<le> ?B" by simp
    with budget show "int (length ?q) + 3 + int (nat (span_length (snd x))) \<le> max_seq_length"
      by (simp add: max_tokens_for_doc_of_def)
  qed
  from spans_loop_no_assertion_error[OF ids this] spans(2) show ?thesis by simp
qed

lemma examples_loop_no_assertion_error:
  assumes ids: "\<forall>ts. length (convert_tokens_to_ids tk ts) = length ts"
  shows "\<forall>x \<in> set xs. 0 < max_tokens_for_doc_of tk max_seq_length max_query_length
                             append_history (snd x) \<Longrightarrow>
    examples_loop u tk max_seq_length doc_stride max_query_length is_training append_history
      xs st \<noteq> Some (Inl AssertionError)"
proof (induction xs arbitrary: st)
  case Nil
  then show ?case by simp
next
  case (Cons x xs)
  obtain i ex where x: "x = (i, ex)" by (cases x) auto
  from Cons.prems x have "0 < max_tokens_for_doc_of tk max_seq_length max_query_length
      append_history ex" by simp
  note c = convert_example_no_assertion_error[OF ids this, of u doc_stride is_training i st]
  from Cons.prems have "\<forall>x \<in> set xs. 0 < max_tokens_for_doc_of tk max_seq_length
      max_query_length append_history (snd x)" by simp
  note ih = Cons.IH[OF this]
  show ?case
  proof (cases "convert_example u tk max_seq_length doc_stride max_query_length is_training
                  append_history i ex st")
    case None
    then show ?thesis by (simp add: x)
  next
    case (Some r)
    with c ih show ?thesis by (cases r) (auto simp: x)
  qed
qed

lemma examples_loop_terminates:
  "\<forall>x \<in> set xs. make_doc_spans (int (length (all_doc_tokens_of tk (snd x))))
       (max_tokens_for_doc_of tk max_seq_length max_query_length append_history (snd x))
       doc_stride \<noteq> None \<Longrightarrow>
   examples_loop u tk max_seq_length doc_stride max_query_length is_training append_history
      xs st \<noteq> None"
proof (induction xs arbitrary: st)
  case Nil
  then show ?case by simp
next
  case (Cons x xs)
  obtain i ex where x: "x = (i, ex)" by (cases x) auto
  from Cons.prems x have t: "make_doc_spans (int (length (all_doc_tokens_of tk ex)))
       (max_tokens_for_doc_of tk max_seq_length max_query_length append_history ex)
       doc_stride \<noteq> None" by simp
  from Cons.prems have "\<forall>x \<in> set xs.
       make_doc_spans (int (length (all_doc_tokens_of tk (snd x))))
       (max_tokens_for_doc_of tk max_seq_length max_query_length append_history (snd x))
       doc_stride \<noteq> None" by simp
  note ih = Cons.IH[OF this]
  have "convert_example u tk max_seq_length doc_stride max_query_length is_training
          append_history i ex st \<noteq> None"
    by (cases rule: convert_example_cases[of u tk max_seq_length doc_stride max_query_length
            is_training append_history i ex st]) (use t in auto)
  with ih show ?case by (auto simp: x split: option.splits sum.splits)
qed

lemma convert_example_diverges:
  assumes "\<not> is_training"
    and "make_doc_spans (int (length (all_doc_tokens_of tk ex)))
       (max_tokens_for_doc_of tk max_seq_length max_query_length append_history ex)
       doc_stride = None"
  shows "convert_example u tk max_seq_length doc_stride max_query_length is_training
          append_history i ex st = None"
  by (cases rule: convert_example_cases[of u tk max_seq_length doc_stride max_query_length
            is_training append_history i ex st]) (use assms in auto)

lemma make_doc_spans_diverges:
  "0 < n \<Longrightarrow> B < n \<Longrightarrow> B \<le> 0 \<or> S \<le> 0 \<Longrightarrow> make_doc_spans n B S = None"
  using make_doc_spans_terminates_iff[of n B S] by (cases "make_doc_spans n B S") auto

lemma snd_enumerate_in:
  assumes "x \<in> set (enumerate n xs)"
  shows "snd x \<in> set xs"
proof -
  from assms have "fst x - n < length xs" "snd x = xs ! (fst x - n)"
    by (auto simp: in_set_enumerate_eq)
  then show ?thesis by simp
qed

lemma example_ab_cd_tokens:
  "all_doc_tokens_of char_tokenizer example_ab_cd = [''a'', ''b'', ''c'', ''d'']"
  by (simp add: all_doc_tokens_of_def example_ab_cd_def char_tokenizer_def Let_def)

lemma example_ab_cd_budget:
  "max_tokens_for_doc_of char_tokenizer m 64 False example_ab_cd = m - 4"
  by (simp add: max_tokens_for_doc_of_def query_tokens_of_def example_ab_cd_def
        char_tokenizer_def slice_from_def slice_bound_def Let_def)

text \<open>
  The chunker does not return for every input with a positive budget: with
  stride 0, a document of four subword tokens and budget 1 the window never
  advances.
\<close>

theorem chunker_termination_counterexample:
  "all_doc_tokens_of char_tokenizer example_ab_cd \<noteq> [] \<and>
   1 \<le> max_tokens_for_doc_of char_tokenizer 5 64 False example_ab_cd \<and>
   convert_examples_to_features test_util [example_ab_cd] char_tokenizer 5 0 64 False False
     = None"
proof -
  have "make_doc_spans (int (length (all_doc_tokens_of char_tokenizer example_ab_cd)))
          (max_tokens_for_doc_of char_tokenizer 5 64 False example_ab_cd) 0 = None"
    by (rule make_doc_spans_diverges) (simp_all add: example_ab_cd_tokens example_ab_cd_budget)
  then have "convert_example test_util char_tokenizer 5 0 64 False False 0 example_ab_cd
               (1000000000, []) = None"
    by (intro convert_example_diverges) simp_all
  then show ?thesis
    by (simp add: convert_examples_to_features_def example_ab_cd_tokens
          example_ab_cd_budget)
qed

text \<open>
  Claim C10, amended. With a stride of at least 1, the chunker returns (a list of
  chunks or an exception) for every input in which each example has an empty
  subword document or a budget of at least 1. Conversely, for an example with at
  least one subword token and a budget of at most 0 the sliding-window loop
  never returns, and outside training the chunker never returns from that
  example.
\<close>

theorem chunker_termination:
  "(1 \<le> doc_stride \<longrightarrow>
      (\<forall>ex \<in> set examples. all_doc_tokens_of tk ex = [] \<or>
          1 \<le> max_tokens_for_doc_of tk max_seq_length max_query_length append_history ex) \<longrightarrow>
      convert_examples_to_features u examples tk max_seq_length doc_stride max_query_length
        is_training append_history \<noteq> None) \<and>
   (all_doc_tokens_of tk ex \<noteq> [] \<longrightarrow>
      max_tokens_for_doc_of tk max_seq_length max_query_length append_history ex \<le> 0 \<longrightarrow>
      make_doc_spans (int (length (all_doc_tokens_of tk ex)))
        (max_tokens_for_doc_of tk max_seq_length max_query_length append_history ex)
        doc_stride = None \<and>
      (\<not> is_training \<longrightarrow>
         convert_example u tk max_seq_length doc_stride max_query_length is_training
           append_history i ex st = None))"
proof (intro conjI impI)
  assume stride: "1 \<le> doc_stride"
    and ex: "\<forall>ex \<in> set examples. all_doc_tokens_of tk ex = [] \<or>
          1 \<le> max_tokens_for_doc_of tk max_seq_length max_query_length append_history ex"
  have "\<forall>x \<in> set (enumerate 0 examples).
          make_doc_spans (int (length (all_doc_tokens_of tk (snd x))))
            (max_tokens_for_doc_of tk max_seq_length max_query_length append_history (snd x))
            doc_stride \<noteq> None"
  proof
    fix x assume "x \<in> set (enumerate 0 examples)"
    then have "snd x \<in> set examples" by (rule snd_enumerate_in)
    with ex have "all_doc_tokens_of tk (snd x) = [] \<or>
          1 \<le> max_tokens_for_doc_of tk max_seq_length max_query_length append_history (snd x)"
      by blast
    with stride have "\<exists>ws. make_doc_spans (int (length (all_doc_tokens_of tk (snd x))))
            (max_tokens_for_doc_of tk max_seq_length max_query_length append_history (snd x))
            doc_stride = Some ws"
      by (subst make_doc_spans_terminates_iff) auto
    then show "make_doc_spans (int (length (all_doc_tokens_of tk (snd x))))
            (max_tokens_for_doc_of tk max_seq_length max_query_length append_history (snd x))
            doc_stride \<noteq> None" by auto
  qed
  from examples_loop_terminates[OF this]
  show "convert_examples_to_features u examples tk max_seq_length doc_stride max_query_length
        is_training append_history \<noteq> None"
    by (simp add: convert_examples_to_features_def)
next
  assume ne: "all_doc_tokens_of tk ex \<noteq> []"
    and b: "max_tokens_for_doc_of tk max_seq_length max_query_length append_history ex \<le> 0"
  from ne have pos: "0 < int (length (all_doc_tokens_of tk ex))" by simp
  with b have "max_tokens_for_doc_of tk max_seq_length max_query_length append_history ex
      < int (length (all_doc_tokens_of tk ex))" by linarith
  with b pos show d: "make_doc_spans (int (length (all_doc_tokens_of tk ex)))
        (max_tokens_for_doc_of tk max_seq_length max_query_length append_history ex)
        doc_stride = None"
    by (intro make_doc_spans_diverges) auto
  assume "\<not> is_training"
  from convert_example_diverges[OF this d]
  show "convert_example u tk max_seq_length doc_stride max_query_length is_training
           append_history i ex st = None" .
qed

theorem chunker_termination_witness:
  "(1::int) \<le> 2 \<and>
   1 \<le> max_tokens_for_doc_of char_tokenizer 6 64 False example_ab_cd \<and>
   convert_examples_to_features test_util [example_ab_cd] char_tokenizer 6 2 64 False False
     \<noteq> None \<and>
   all_doc_tokens_of char_tokenizer example_ab_cd \<noteq> [] \<and>
   max_tokens_for_doc_of char_tokenizer 4 64 False example_ab_cd \<le> 0 \<and>
   make_doc_spans (int (length (all_doc_tokens_of char_tokenizer example_ab_cd)))
     (max_tokens_for_doc_of char_tokenizer 4 64 False example_ab_cd) 2 = None \<and>
   \<not> False \<and>
   convert_example test_util char_tokenizer 4 2 64 False False 0 example_ab_cd
     (1000000000, []) = None"
  using chunker_termination [of 2 "[example_ab_cd]" char_tokenizer 6 64 False test_util False]
    chunker_termination [of 2 "[]" char_tokenizer 4 64 False test_util False example_ab_cd 0
      "(1000000000, [])"]
  by (simp add: example_ab_cd_tokens example_ab_cd_budget)

text \<open>
  Claim C9. Every chunk that the chunker returns has \<open>input_ids\<close>, \<open>input_mask\<close>
  and \<open>segment_ids\<close> of length \<open>max_seq_length\<close>. When the tokenizer gives one id
  for each token and the budget of every example is positive, no length
  assertion fails.
\<close>

theorem padding_invariant:
  "(convert_examples_to_features u examples tk max_seq_length doc_stride max_query_length
      is_training append_history = Some (Inr features) \<longrightarrow>
      (\<forall>f \<in> set features.
         int (length (input_ids f)) = max_seq_length \<and>
         int (length (input_mask f)) = max_seq_length \<and>
         int (length (segment_ids f)) = max_seq_length)) \<and>
   ((\<forall>ts. length (convert_tokens_to_ids tk ts) = length ts) \<longrightarrow>
    (\<forall>ex \<in> set examples.
        0 < max_tokens_for_doc_of tk max_seq_length max_query_length append_history ex) \<longrightarrow>
      convert_examples_to_features u examples tk max_seq_length doc_stride max_query_length
        is_training append_history \<noteq> Some (Inl AssertionError))"
proof (intro conjI impI)
  assume "convert_examples_to_features u examples tk max_seq_length doc_stride max_query_length
      is_training append_history = Some (Inr features)"
  then obtain r where r: "examples_loop u tk max_seq_length doc_stride max_query_length
      is_training append_history (enumerate 0 examples) (1000000000, []) = Some r"
    and "map_sum id snd r = Inr features"
    by (auto simp: convert_examples_to_features_def)
  then obtain uid where "r = Inr (uid, features)" by (cases r) auto
  with r have "examples_loop u tk max_seq_length doc_stride max_query_length
      is_training append_history (enumerate 0 examples) (1000000000, [])
      = Some (Inr (uid, features))" by simp
  from examples_loop_padded[OF this]
  show "\<forall>f \<in> set features.
         int (length (input_ids f)) = max_seq_length \<and>
         int (length (input_mask f)) = max_seq_length \<and>
         int (length (segment_ids f)) = max_seq_length"
    by (simp add: padded_to_def)
next
  assume ids: "\<forall>ts. length (convert_tokens_to_ids tk ts) = length ts"
    and b: "\<forall>ex \<in> set examples.
        0 < max_tokens_for_doc_of tk max_seq_length max_query_length append_history ex"
  have "\<forall>x \<in> set (enumerate 0 examples).
          0 < max_tokens_for_doc_of tk max_seq_length max_query_length append_history (snd x)"
    using b snd_enumerate_in by blast
  from examples_loop_no_assertion_error[OF ids this]
  show "convert_examples_to_features u examples tk max_seq_length doc_stride max_query_length
        is_training append_history \<noteq> Some (Inl AssertionError)"
    by (auto simp: convert_examples_to_features_def map_sum_def split: sum.splits)
qed

lemma example_ab_cd_chunks:
  "map_option (map_sum id (map (\<lambda>f. (doc_span_index f, input_ids f, input_mask f, segment_ids f))))
     (convert_examples_to_features test_util [example_ab_cd] char_tokenizer 7 2 64 False False)
   = Some (Inr [(0, [5, 1, 5, 1, 1, 1, 5], [1, 1, 1, 1, 1, 1, 1], [0, 0, 0, 1, 1, 1, 1]),
                (1, [5, 1, 5, 1, 1, 5, 0], [1, 1, 1, 1, 1, 1, 0], [0, 0, 0, 1, 1, 1, 0])])"
  by code_simp

theorem padding_invariant_witness:
  "(\<exists>features. convert_examples_to_features test_util [example_ab_cd] char_tokenizer 7 2 64
       False False = Some (Inr features) \<and>
      map (\<lambda>f. (doc_span_index f, input_ids f, input_mask f, segment_ids f)) features =
        [(0, [5, 1, 5, 1, 1, 1, 5], [1, 1, 1, 1, 1, 1, 1], [0, 0, 0, 1, 1, 1, 1]),
         (1, [5, 1, 5, 1, 1, 5, 0], [1, 1, 1, 1, 1, 1, 0], [0, 0, 0, 1, 1, 1, 0])] \<and>
      (\<forall>f \<in> set features.
         int (length (input_ids f)) = 7 \<and> int (length (input_mask f)) = 7 \<and>
         int (length (segment_ids f)) = 7)) \<and>
   (\<forall>ts. length (convert_tokens_to_ids char_tokenizer ts) = length ts) \<and>
   0 < max_tokens_for_doc_of char_tokenizer 7 64 False example_ab_cd \<and>
   convert_examples_to_features test_util [example_ab_cd] char_tokenizer 7 2 64 False False
     \<noteq> Some (Inl AssertionError)"
proof -
  from example_ab_cd_chunks obtain features where
    f: "convert_examples_to_features test_util [example_ab_cd] char_tokenizer 7 2 64
          False False = Some (Inr features)"
    and m: "map (\<lambda>f. (doc_span_index f, input_ids f, input_mask f, segment_ids f)) features =
        [(0, [5, 1, 5, 1, 1, 1, 5], [1, 1, 1, 1, 1, 1, 1], [0, 0, 0, 1, 1, 1, 1]),
         (1, [5, 1, 5, 1, 1, 5, 0], [1, 1, 1, 1, 1, 1, 0], [0, 0, 0, 1, 1, 1, 0])]"
    by (cases "convert_examples_to_features test_util [example_ab_cd] char_tokenizer 7 2 64
          False False") (auto simp: map_sum_def split: sum.splits)
  have ids: "\<forall>ts. length (convert_tokens_to_ids char_tokenizer ts) = length ts"
    by (simp add: char_tokenizer_def)
  have b: "\<forall>ex \<in> set [example_ab_cd]. 0 < max_tokens_for_doc_of char_tokenizer 7 64 False ex"
    by (simp add: example_ab_cd_budget)
  from padding_invariant [of test_util "[example_ab_cd]" char_tokenizer 7 2 64 False False
      features] f ids b
  have "(\<forall>f \<in> set features.
         int (length (input_ids f)) = 7 \<and> int (length (input_mask f)) = 7 \<and>
         int (length (segment_ids f)) = 7) \<and>
    convert_examples_to_features test_util [example_ab_cd] char_tokenizer 7 2 64 False False
     \<noteq> Some (Inl AssertionError)"
    by simp
  then have p: "\<forall>f \<in> set features.
         int (length (input_ids f)) = 7 \<and> int (length (input_mask f)) = 7 \<and>
         int (length (segment_ids f)) = 7"
    and q: "convert_examples_to_features test_util [example_ab_cd] char_tokenizer 7 2 64
      False False \<noteq> Some (Inl AssertionError)" by blast+
  from f m p have "\<exists>features. convert_examples_to_features test_util [example_ab_cd]
       char_tokenizer 7 2 64 False False = Some (Inr features) \<and>
      map (\<lambda>f. (doc_span_index f, input_ids f, input_mask f, segment_ids f)) features =
        [(0, [5, 1, 5, 1, 1, 1, 5], [1, 1, 1, 1, 1, 1, 1], [0, 0, 0, 1, 1, 1, 1]),
         (1, [5, 1, 5, 1, 1, 5, 0], [1, 1, 1, 1, 1, 1, 0], [0, 0, 0, 1, 1, 1, 0])] \<and>
      (\<forall>f \<in> set features.
         int (length (input_ids f)) = 7 \<and> int (length (input_mask f)) = 7 \<and>
         int (length (segment_ids f)) = 7)"
    by (intro exI[where x = features] conjI)
  moreover have "0 < max_tokens_for_doc_of char_tokenizer 7 64 False example_ab_cd"
    by (simp add: example_ab_cd_budget)
  ultimately show ?thesis using ids q by (intro conjI)
qed

subsection \<open>Training labels\<close>

lemma training_labels_emitted:
  assumes "training_labels True example query_tokens (Some (ts, te)) ds = Inr (Some l)"
  shows "l = (Some (ts - start ds + (int (length query_tokens) + 2)),
              Some (te - start ds + (int (length query_tokens) + 2)),
              ex_yes_no_flag example, ex_yes_no_ans example)"
  using assms
  by (auto simp: training_labels_def Let_def split: option.splits if_splits)

lemma training_labels_condition:
  assumes "ex_start_position example = Some sp" "ex_end_position example = Some ep"
  shows "training_labels True example query_tokens (Some (ts, te)) ds \<noteq> Inr None \<longleftrightarrow>
           start ds \<le> sp \<and> start ds \<le> ep \<and>
           sp \<le> start ds + span_length ds - 1 \<and> ep \<le> start ds + span_length ds - 1"
  using assms by (auto simp: training_labels_def Let_def)

text \<open>
  Claim C1 says that in training a chunk is emitted exactly when the gold span in
  subword positions lies in the window. The code compares the gold span in
  \<^emph>\<open>word\<close> positions (\<^verbatim>\<open>example.start_position\<close>, \<^verbatim>\<open>example.end_position\<close>) with
  the window, which is in subword positions, and then computes the labels from
  the subword span. For the document \<open>ab cd\<close> with gold answer \<open>cd\<close> (word 1,
  subword tokens 2 to 3), budget 2 and stride 2, the windows are \<open>[0, 1]\<close> and
  \<open>[2, 3]\<close>: the only chunk emitted is the one of window 0, which does not contain
  the answer, with labels 5 and 6 that point past its document tokens; window 1,
  which holds the answer, is skipped.
\<close>

theorem training_window_check_failing_input:
  "tokenize_doc char_tokenizer 0 (doc_tokens example_ab_cd) ([], [], []) =
     ([0, 0, 1, 1], [0, 2], [''a'', ''b'', ''c'', ''d'']) \<and>
   tok_answer_span test_util char_tokenizer example_ab_cd [0, 2] [''a'', ''b'', ''c'', ''d'']
     = Inr (2, 3) \<and>
   make_doc_spans 4 (max_tokens_for_doc_of char_tokenizer 6 64 False example_ab_cd) 2 =
     Some [\<lparr>start = 0, span_length = 2\<rparr>, \<lparr>start = 2, span_length = 2\<rparr>] \<and>
   map_option (map_sum id
       (map (\<lambda>f. (doc_span_index f, tokens f, start_position f, end_position f))))
     (convert_examples_to_features test_util [example_ab_cd] char_tokenizer 6 2 64 True False)
   = Some (Inr [(0, [''[CLS]'', ''q'', ''[SEP]'', ''a'', ''b'', ''[SEP]''], Some 5, Some 6)])"
  by code_simp

subsection \<open>Query tokens\<close>

lemma query_tokens_reversed:
  assumes "0 \<le> m"
  shows "query_tokens_of tk m True example =
           take (nat m) (concat (rev (map (tokenize tk) (question_texts example))))"
proof -
  let ?flat = "concat (rev (map (tokenize tk) (question_texts example)))"
  have "take (min (length ?flat) (nat m)) ?flat = take (nat m) ?flat"
    by (simp add: min_def)
  with assms show ?thesis
    by (simp only: query_tokens_of_def slice_to_def slice_bound_def Let_def if_True)
       (simp add: not_less)
qed

lemma query_tokens_forward:
  assumes "1 \<le> m"
  shows "query_tokens_of tk m False example =
           drop (length (concat (map (tokenize tk) (question_texts example))) - nat m)
             (concat (map (tokenize tk) (question_texts example)))"
  using assms
  by (auto simp: query_tokens_of_def slice_from_def slice_bound_def Let_def nat_diff_distrib')

lemma query_tokens_current_turn:
  assumes "question_texts example \<noteq> []"
    and "int (length (tokenize tk (last (question_texts example)))) \<le> m"
  shows "set (tokenize tk (last (question_texts example)))
           \<subseteq> set (query_tokens_of tk m append_history example)"
proof -
  let ?cur = "tokenize tk (last (question_texts example))"
  from assms(1) obtain qs where qs: "question_texts example = qs @ [last (question_texts example)]"
    by (metis append_butlast_last_id)
  show ?thesis
  proof (cases append_history)
    case True
    have "concat (rev (map (tokenize tk) (question_texts example)))
            = ?cur @ concat (rev (map (tokenize tk) qs))"
      by (subst qs) simp
    moreover from assms(2) have "0 \<le> m" by simp
    ultimately have "query_tokens_of tk m True example
        = take (nat m) (?cur @ concat (rev (map (tokenize tk) qs)))"
      by (simp add: query_tokens_reversed)
    also have "\<dots> = ?cur @ take (nat m - length ?cur) (concat (rev (map (tokenize tk) qs)))"
      using assms(2) by simp
    finally show ?thesis using True by simp
  next
    case False
    let ?old = "concat (map (tokenize tk) qs)"
    have flat: "concat (map (tokenize tk) (question_texts example)) = ?old @ ?cur"
      by (subst qs) simp
    show ?thesis
    proof (cases "1 \<le> m")
      case True
      from assms(2) have "length (?old @ ?cur) - nat m \<le> length ?old" by simp
      then have "drop (length (?old @ ?cur) - nat m) (?old @ ?cur)
          = drop (length (?old @ ?cur) - nat m) ?old @ ?cur" by simp
      with query_tokens_forward[OF True, of tk example] flat False show ?thesis by simp
    next
      case F: False
      with assms(2) have "length ?cur = 0" by linarith
      then have "?cur = []" by simp
      then show ?thesis by simp
    qed
  qed
qed

text \<open>
  Claim C4 says that without \<open>append_history\<close> the query is the last
  \<open>max_query_length\<close> tokens of the concatenation. The slice
  \<^verbatim>\<open>flat_all_query_tokens[-1*max_query_length:]\<close> does that for a positive
  \<open>max_query_length\<close> (\<open>query_tokens_forward\<close>), but for \<open>max_query_length = 0\<close> the
  bound \<^verbatim>\<open>-0\<close> is \<^verbatim>\<open>0\<close> and the slice is the whole list, where the other branch
  gives the empty list.
\<close>

theorem query_tokens_zero_length:
  "concat (map (tokenize char_tokenizer) (question_texts example_ab_cd)) = [''q''] \<and>
   query_tokens_of char_tokenizer 0 False example_ab_cd = [''q''] \<and>
   query_tokens_of char_tokenizer 0 True example_ab_cd = []"
  by (simp add: query_tokens_of_def slice_from_def slice_to_def slice_bound_def Let_def
        example_ab_cd_def char_tokenizer_def)

section \<open>Properties of the decoder\<close>

subsection \<open>Candidates of one chunk\<close>

lemma py_get_nat: "py_get xs (int i) = Inr v \<Longrightarrow> i < length xs \<and> v = xs ! i"
  by (auto simp: py_get_def split: if_splits)

lemma py_get_in_range: "i < length xs \<Longrightarrow> py_get xs (int i) = Inr (xs ! i)"
  by (simp add: py_get_def)

lemma end_loop_skip:
  "\<not> valid_span feature max_answer_length si ei \<Longrightarrow>
   end_loop feature result fi max_answer_length si (ei # rest) prelim =
   end_loop feature result fi max_answer_length si rest prelim"
  by (auto simp: valid_span_def split: option.splits)

lemma end_loop_keep:
  "valid_span feature max_answer_length si ei \<Longrightarrow>
   end_loop feature result fi max_answer_length si (ei # rest) prelim =
     (case py_get (start_logits result) (int si) of
        Inl e \<Rightarrow> Inl e
      | Inr sl \<Rightarrow>
         (case py_get (end_logits result) (int ei) of
            Inl e \<Rightarrow> Inl e
          | Inr el \<Rightarrow>
              end_loop feature result fi max_answer_length si rest
                (prelim @
                   [\<lparr>feature_index = fi, start_index = int si, end_index = int ei,
                     pred_text = None,
                     logit = fst (yes_no_flag_logits result) + sl + el\<rparr>])))"
  by (auto simp: valid_span_def split: option.splits)

lemma end_loop_result:
  "end_loop feature result fi max_answer_length si ends prelim = Inr ps \<Longrightarrow>
   ps = prelim @ map (span_prediction result fi si)
                   (filter (valid_span feature max_answer_length si) ends) \<and>
   (\<forall>ei \<in> set ends. valid_span feature max_answer_length si ei \<longrightarrow>
       si < length (start_logits result) \<and> ei < length (end_logits result))"
proof (induction ends arbitrary: prelim)
  case Nil
  then show ?case by simp
next
  case (Cons ei rest)
  show ?case
  proof (cases "valid_span feature max_answer_length si ei")
    case False
    from Cons.prems have "end_loop feature result fi max_answer_length si rest prelim = Inr ps"
      unfolding end_loop_skip[OF False] .
    from Cons.IH[OF this] False show ?thesis by simp
  next
    case True
    from Cons.prems obtain sl el where
      sl: "py_get (start_logits result) (int si) = Inr sl"
      and el: "py_get (end_logits result) (int ei) = Inr el"
      and rest: "end_loop feature result fi max_answer_length si rest
                (prelim @
                   [\<lparr>feature_index = fi, start_index = int si, end_index = int ei,
                     pred_text = None,
                     logit = fst (yes_no_flag_logits result) + sl + el\<rparr>]) = Inr ps"
      unfolding end_loop_keep[OF True] by (auto split: sum.splits)
    from py_get_nat[OF sl] py_get_nat[OF el]
    have r: "si < length (start_logits result)" "ei < length (end_logits result)"
      and p: "\<lparr>feature_index = fi, start_index = int si, end_index = int ei,
                     pred_text = None,
                     logit = fst (yes_no_flag_logits result) + sl + el\<rparr>
              = span_prediction result fi si ei"
      by (simp_all add: span_prediction_def)
    from Cons.IH[OF rest] True r show ?thesis by (simp add: p)
  qed
qed

lemma end_loop_returns:
  "(\<forall>ei \<in> set ends. valid_span feature max_answer_length si ei \<longrightarrow>
       si < length (start_logits result) \<and> ei < length (end_logits result)) \<Longrightarrow>
   \<exists>ps. end_loop feature result fi max_answer_length si ends prelim = Inr ps"
proof (induction ends arbitrary: prelim)
  case Nil
  then show ?case by simp
next
  case (Cons ei rest)
  from Cons.prems have r: "\<forall>ei \<in> set rest. valid_span feature max_answer_length si ei \<longrightarrow>
       si < length (start_logits result) \<and> ei < length (end_logits result)" by simp
  show ?case
  proof (cases "valid_span feature max_answer_length si ei")
    case False
    from Cons.IH[OF r] show ?thesis unfolding end_loop_skip[OF False] .
  next
    case True
    with Cons.prems have "si < length (start_logits result)" "ei < length (end_logits result)"
      by simp_all
    with Cons.IH[OF r] show ?thesis
      unfolding end_loop_keep[OF True] by (simp add: py_get_in_range)
  qed
qed

lemma start_loop_result:
  "start_loop feature result fi max_answer_length starts ends prelim = Inr ps \<Longrightarrow>
   ps = prelim @ concat (map (\<lambda>si. map (span_prediction result fi si)
                     (filter (valid_span feature max_answer_length si) ends)) starts) \<and>
   (\<forall>si \<in> set starts. \<forall>ei \<in> set ends. valid_span feature max_answer_length si ei \<longrightarrow>
       si < length (start_logits result) \<and> ei < length (end_logits result))"
proof (induction starts arbitrary: prelim)
  case Nil
  then show ?case by simp
next
  case (Cons si rest)
  from Cons.prems obtain ps1 where
    e: "end_loop feature result fi max_answer_length si ends prelim = Inr ps1"
    and s: "start_loop feature result fi max_answer_length rest ends ps1 = Inr ps"
    by (auto split: sum.splits)
  from end_loop_result[OF e] Cons.IH[OF s] show ?case by simp
qed

lemma start_loop_returns:
  "(\<forall>si \<in> set starts. \<forall>ei \<in> set ends. valid_span feature max_answer_length si ei \<longrightarrow>
       si < length (start_logits result) \<and> ei < length (end_logits result)) \<Longrightarrow>
   \<exists>ps. start_loop feature result fi max_answer_length starts ends prelim = Inr ps"
proof (induction starts arbitrary: prelim)
  case Nil
  then show ?case by simp
next
  case (Cons si rest)
  from Cons.prems have "\<forall>ei \<in> set ends. valid_span feature max_answer_length si ei \<longrightarrow>
       si < length (start_logits result) \<and> ei < length (end_logits result)" by simp
  from end_loop_returns[OF this] obtain ps1 where
    "end_loop feature result fi max_answer_length si ends prelim = Inr ps1" by blast
  moreover from Cons.prems have "\<forall>si \<in> set rest. \<forall>ei \<in> set ends.
       valid_span feature max_answer_length si ei \<longrightarrow>
       si < length (start_logits result) \<and> ei < length (end_logits result)" by simp
  from Cons.IH[OF this] obtain ps where
    "start_loop feature result fi max_answer_length rest ends ps1 = Inr ps" by blast
  ultimately show ?case by simp
qed


text \<open>
  Claim C5. For a chunk whose first applicable score is not below the second
  (the span-extractive case), the candidates that the chunk adds are these: a
  pair of a start position among the best start positions and an end position
  among the best end positions is the span of a candidate exactly when both
  positions are below the number of tokens of the chunk, both are keys of
  \<open>token_to_orig_map\<close>, \<open>token_is_max_context\<close> holds at the start, the end is
  not before the start and the span has at most \<open>max_answer_length\<close> tokens; and
  the logit of every candidate is the applicable score at index 0 plus the start
  score plus the end score. When the best positions lie inside the score arrays
  the code returns.
\<close>

theorem span_candidates:
  assumes "argmax (yes_no_flag_logits result) \<noteq> 1"
  shows "(feature_prelims u n_best_size max_answer_length fi feature result prelim = Inr ps \<longrightarrow>
      (\<exists>new. ps = prelim @ new \<and>
         (\<forall>si \<in> set (get_best_indexes u (start_logits result) n_best_size).
          \<forall>ei \<in> set (get_best_indexes u (end_logits result) n_best_size).
            (\<exists>p \<in> set new. start_index p = int si \<and> end_index p = int ei) \<longleftrightarrow>
              si < length (tokens feature) \<and> ei < length (tokens feature) \<and>
              si \<in> dom (map_of (token_to_orig_map feature)) \<and>
              ei \<in> dom (map_of (token_to_orig_map feature)) \<and>
              map_of (token_is_max_context feature) si = Some True \<and>
              si \<le> ei \<and> int ei - int si + 1 \<le> max_answer_length) \<and>
         (\<forall>p \<in> set new.
            \<exists>si \<in> set (get_best_indexes u (start_logits result) n_best_size).
            \<exists>ei \<in> set (get_best_indexes u (end_logits result) n_best_size).
              si < length (start_logits result) \<and> ei < length (end_logits result) \<and>
              p = \<lparr>feature_index = fi, start_index = int si, end_index = int ei,
                    pred_text = None,
                    logit = fst (yes_no_flag_logits result) + start_logits result ! si
                              + end_logits result ! ei\<rparr>))) \<and>
    ((\<forall>si \<in> set (get_best_indexes u (start_logits result) n_best_size).
         si < length (start_logits result)) \<longrightarrow>
     (\<forall>ei \<in> set (get_best_indexes u (end_logits result) n_best_size).
         ei < length (end_logits result)) \<longrightarrow>
     (\<exists>ps. feature_prelims u n_best_size max_answer_length fi feature result prelim = Inr ps))"
proof (intro conjI impI)
  let ?starts = "get_best_indexes u (start_logits result) n_best_size"
  let ?ends = "get_best_indexes u (end_logits result) n_best_size"
  let ?ok = "valid_span feature max_answer_length"
  let ?new = "concat (map (\<lambda>si. map (span_prediction result fi si) (filter (?ok si) ?ends))
                ?starts)"
  from assms have fp: "feature_prelims u n_best_size max_answer_length fi feature result prelim
      = start_loop feature result fi max_answer_length ?starts ?ends prelim"
    by (simp add: feature_prelims_def)
  {
    assume "feature_prelims u n_best_size max_answer_length fi feature result prelim = Inr ps"
    with fp have "start_loop feature result fi max_answer_length ?starts ?ends prelim = Inr ps"
      by simp
    from start_loop_result[OF this]
    have ps: "ps = prelim @ ?new"
      and rng: "\<forall>si \<in> set ?starts. \<forall>ei \<in> set ?ends. ?ok si ei \<longrightarrow>
         si < length (start_logits result) \<and> ei < length (end_logits result)"
      by blast+
    have mem: "\<And>p. p \<in> set ?new \<longleftrightarrow>
        (\<exists>si \<in> set ?starts. \<exists>ei \<in> set ?ends. ?ok si ei \<and> p = span_prediction result fi si ei)"
      by auto
    have a: "\<forall>si \<in> set ?starts. \<forall>ei \<in> set ?ends.
            (\<exists>p \<in> set ?new. start_index p = int si \<and> end_index p = int ei) \<longleftrightarrow>
              si < length (tokens feature) \<and> ei < length (tokens feature) \<and>
              si \<in> dom (map_of (token_to_orig_map feature)) \<and>
              ei \<in> dom (map_of (token_to_orig_map feature)) \<and>
              map_of (token_is_max_context feature) si = Some True \<and>
              si \<le> ei \<and> int ei - int si + 1 \<le> max_answer_length"
    proof (intro ballI)
      fix si ei assume si: "si \<in> set ?starts" and ei: "ei \<in> set ?ends"
      have "(\<exists>p \<in> set ?new. start_index p = int si \<and> end_index p = int ei) \<longleftrightarrow> ?ok si ei"
      proof
        assume "\<exists>p \<in> set ?new. start_index p = int si \<and> end_index p = int ei"
        then obtain si' ei' where "?ok si' ei'" "int si' = int si" "int ei' = int ei"
          unfolding mem by (auto simp: span_prediction_def)
        then show "?ok si ei" by simp
      next
        assume "?ok si ei"
        with si ei have "span_prediction result fi si ei \<in> set ?new" unfolding mem by blast
        then show "\<exists>p \<in> set ?new. start_index p = int si \<and> end_index p = int ei"
          by (rule bexI[rotated]) (simp add: span_prediction_def)
      qed
      then show "(\<exists>p \<in> set ?new. start_index p = int si \<and> end_index p = int ei) \<longleftrightarrow>
              si < length (tokens feature) \<and> ei < length (tokens feature) \<and>
              si \<in> dom (map_of (token_to_orig_map feature)) \<and>
              ei \<in> dom (map_of (token_to_orig_map feature)) \<and>
              map_of (token_is_max_context feature) si = Some True \<and>
              si \<le> ei \<and> int ei - int si + 1 \<le> max_answer_length"
        by (simp add: valid_span_def dom_def)
    qed
    have b: "\<forall>p \<in> set ?new. \<exists>si \<in> set ?starts. \<exists>ei \<in> set ?ends.
              si < length (start_logits result) \<and> ei < length (end_logits result) \<and>
              p = \<lparr>feature_index = fi, start_index = int si, end_index = int ei,
                    pred_text = None,
                    logit = fst (yes_no_flag_logits result) + start_logits result ! si
                              + end_logits result ! ei\<rparr>"
    proof
      fix p assume "p \<in> set ?new"
      then obtain si ei where "si \<in> set ?starts" "ei \<in> set ?ends" "?ok si ei"
        "p = span_prediction result fi si ei" unfolding mem by blast
      with rng show "\<exists>si \<in> set ?starts. \<exists>ei \<in> set ?ends.
              si < length (start_logits result) \<and> ei < length (end_logits result) \<and>
              p = \<lparr>feature_index = fi, start_index = int si, end_index = int ei,
                    pred_text = None,
                    logit = fst (yes_no_flag_logits result) + start_logits result ! si
                              + end_logits result ! ei\<rparr>"
        unfolding span_prediction_def by blast
    qed
    from ps a b show "\<exists>new. ps = prelim @ new \<and>
         (\<forall>si \<in> set ?starts. \<forall>ei \<in> set ?ends.
            (\<exists>p \<in> set new. start_index p = int si \<and> end_index p = int ei) \<longleftrightarrow>
              si < length (tokens feature) \<and> ei < length (tokens feature) \<and>
              si \<in> dom (map_of (token_to_orig_map feature)) \<and>
              ei \<in> dom (map_of (token_to_orig_map feature)) \<and>
              map_of (token_is_max_context feature) si = Some True \<and>
              si \<le> ei \<and> int ei - int si + 1 \<le> max_answer_length) \<and>
         (\<forall>p \<in> set new. \<exists>si \<in> set ?starts. \<exists>ei \<in> set ?ends.
              si < length (start_logits result) \<and> ei < length (end_logits result) \<and>
              p = \<lparr>feature_index = fi, start_index = int si, end_index = int ei,
                    pred_text = None,
                    logit = fst (yes_no_flag_logits result) + start_logits result ! si
                              + end_logits result ! ei\<rparr>)"
      by (intro exI[where x = ?new] conjI)
  }
  {
    assume "\<forall>si \<in> set ?starts. si < length (start_logits result)"
      and "\<forall>ei \<in> set ?ends. ei < length (end_logits result)"
    then have "\<forall>si \<in> set ?starts. \<forall>ei \<in> set ?ends. ?ok si ei \<longrightarrow>
         si < length (start_logits result) \<and> ei < length (end_logits result)" by blast
    from start_loop_returns[OF this] fp
    show "\<exists>ps. feature_prelims u n_best_size max_answer_length fi feature result prelim = Inr ps"
      by simp
  }
qed

lemma result_span_best_indexes:
  "get_best_indexes test_util (start_logits result_span) 3 = [3, 4, 0] \<and>
   get_best_indexes test_util (end_logits result_span) 3 = [4, 3, 0]"
  by code_simp

lemma chunk_ab_span_prelims:
  "feature_prelims test_util 3 30 0 chunk_ab result_span [] =
     Inr [\<lparr>feature_index = 0, start_index = 3, end_index = 4, pred_text = None, logit = 10\<rparr>,
          \<lparr>feature_index = 0, start_index = 3, end_index = 3, pred_text = None, logit = 7\<rparr>,
          \<lparr>feature_index = 0, start_index = 4, end_index = 4, pred_text = None, logit = 6\<rparr>]"
  by code_simp

theorem span_candidates_witness:
  "argmax (yes_no_flag_logits result_span) \<noteq> 1 \<and>
   get_best_indexes test_util (start_logits result_span) 3 = [3, 4, 0] \<and>
   get_best_indexes test_util (end_logits result_span) 3 = [4, 3, 0] \<and>
   length (start_logits result_span) = 6 \<and> length (end_logits result_span) = 6 \<and>
   feature_prelims test_util 3 30 0 chunk_ab result_span [] =
     Inr [\<lparr>feature_index = 0, start_index = 3, end_index = 4, pred_text = None, logit = 10\<rparr>,
          \<lparr>feature_index = 0, start_index = 3, end_index = 3, pred_text = None, logit = 7\<rparr>,
          \<lparr>feature_index = 0, start_index = 4, end_index = 4, pred_text = None, logit = 6\<rparr>] \<and>
   (\<exists>ps. feature_prelims test_util 3 30 0 chunk_ab result_span [] = Inr ps)"
proof -
  have a: "argmax (yes_no_flag_logits result_span) \<noteq> 1"
    by (simp add: argmax_def result_span_def)
  have l: "length (start_logits result_span) = 6" "length (end_logits result_span) = 6"
    by (simp_all add: result_span_def)
  have s: "\<forall>si \<in> set (get_best_indexes test_util (start_logits result_span) 3).
             si < length (start_logits result_span)"
    unfolding result_span_best_indexes[THEN conjunct1] l by simp
  have e: "\<forall>ei \<in> set (get_best_indexes test_util (end_logits result_span) 3).
             ei < length (end_logits result_span)"
    unfolding result_span_best_indexes[THEN conjunct2] l by simp
  from span_candidates [OF a, of test_util 3 30 0 chunk_ab "[]", THEN conjunct2] s e
  have "\<exists>ps. feature_prelims test_util 3 30 0 chunk_ab result_span [] = Inr ps"
    by (rule mp[OF mp])
  with a l result_span_best_indexes chunk_ab_span_prelims show ?thesis by (intro conjI) blast+
qed

text \<open>
  Claim C6. A chunk whose applicable scores have their maximum at index 1 adds
  exactly one candidate: positions \<open>-1\<close> and \<open>-1\<close>, text \<open>yes\<close> when the answer
  scores have their maximum at index 1 and \<open>no\<close> otherwise, and logit the
  applicable score at index 1 plus the chosen answer score; no span candidate is
  added. For applicable scores \<open>(0.1, 0.9)\<close> and answer scores \<open>(0.2, 0.8)\<close> the
  text is \<open>yes\<close> and the logit is \<open>1.7\<close> (scores are real numbers here).
\<close>

theorem yes_no_candidate:
  "(argmax (yes_no_flag_logits result) = 1 \<longrightarrow>
      feature_prelims u n_best_size max_answer_length fi feature result prelim =
        Inr (prelim @
          [\<lparr>feature_index = fi, start_index = - 1, end_index = - 1,
            pred_text = Some (if argmax (yes_no_ans_logits result) = 1 then ''yes'' else ''no''),
            logit = snd (yes_no_flag_logits result) +
                    (if argmax (yes_no_ans_logits result) = 1
                     then snd (yes_no_ans_logits result)
                     else fst (yes_no_ans_logits result))\<rparr>])) \<and>
   (yes_no_flag_logits result = (0.1, 0.9) \<longrightarrow> yes_no_ans_logits result = (0.2, 0.8) \<longrightarrow>
      feature_prelims u n_best_size max_answer_length fi feature result prelim =
        Inr (prelim @
          [\<lparr>feature_index = fi, start_index = - 1, end_index = - 1,
            pred_text = Some ''yes'', logit = 1.7\<rparr>]))"
  by (simp add: feature_prelims_def argmax_def)

theorem yes_no_candidate_witness:
  "argmax (yes_no_flag_logits result_yes) = 1 \<and>
   yes_no_flag_logits result_yes = (0.1, 0.9) \<and> yes_no_ans_logits result_yes = (0.2, 0.8) \<and>
   feature_prelims test_util 3 30 0 chunk_ab result_yes [] =
     Inr [\<lparr>feature_index = 0, start_index = - 1, end_index = - 1,
           pred_text = Some ''yes'', logit = 1.7\<rparr>]"
  using yes_no_candidate [of result_yes test_util 3 30 0 chunk_ab "[]"]
  by (simp add: result_yes_def argmax_def)

subsection \<open>Ranking and removal of duplicates\<close>



lemma keep_first_texts_complete:
  "x \<in> set xs \<Longrightarrow> nbest_text x \<notin> seen \<Longrightarrow>
     nbest_text x \<in> nbest_text ` set (keep_first_texts seen xs)"
  by (induction xs arbitrary: seen) auto

lemma seen_iff: "map_of seen t \<noteq> None \<longleftrightarrow> t \<in> fst ` set seen"
  by (simp add: map_of_eq_None_iff)

lemma nbest_loop_result:
  assumes "\<forall>p \<in> set preds. final_text p = Inr (t p)"
  shows "nbest_loop final_text n_best_size validate_flag preds (seen, nbest) =
     Inr (nbest @
          take (if validate_flag then min 1 (nat (n_best_size - int (length nbest)))
                else nat (n_best_size - int (length nbest)))
            (keep_first_texts (fst ` set seen)
               (map (\<lambda>p. \<lparr>nbest_text = t p, nbest_logit = logit p\<rparr>) preds)))"
  using assms
proof (induction preds arbitrary: seen nbest)
  case Nil
  then show ?case by simp
next
  case (Cons p rest)
  from Cons.prems have tp: "final_text p = Inr (t p)"
    and rest: "\<forall>p \<in> set rest. final_text p = Inr (t p)" by simp_all
  note ih = Cons.IH[OF rest]
  let ?x = "\<lparr>nbest_text = t p, nbest_logit = logit p\<rparr>"
  show ?case
  proof (cases "int (length nbest) \<ge> n_best_size")
    case True
    then show ?thesis by simp
  next
    case False
    then have k: "nat (n_best_size - int (length nbest)) = Suc (nat (n_best_size - int (length (nbest @ [?x]))))"
      by simp
    show ?thesis
    proof (cases "t p \<in> fst ` set seen")
      case True
      with False tp ih[of seen nbest] show ?thesis by (simp add: map_of_eq_None_iff)
    next
      case new: False
      show ?thesis
      proof (cases validate_flag)
        case True
        with False new tp k show ?thesis by (simp add: map_of_eq_None_iff)
      next
        case F: False
        have "fst ` set (AList.update (t p) True seen) = insert (t p) (fst ` set seen)"
          by (simp add: dom_update)
        with False new tp F ih[of "AList.update (t p) True seen" "nbest @ [?x]"] k
        show ?thesis by (simp add: map_of_eq_None_iff)
      qed
    qed
  qed
qed


lemma feature_prelims_ok:
  assumes "feature_prelims u n_best_size max_answer_length fi (features ! fi) result prelim
             = Inr ps"
    and "fi < length features"
    and "\<forall>p \<in> set prelim. candidate_ok features max_answer_length p"
  shows "\<forall>p \<in> set ps. candidate_ok features max_answer_length p"
proof (cases "argmax (yes_no_flag_logits result) = 1")
  case True
  with assms show ?thesis
    by (auto simp: feature_prelims_def candidate_ok_def split: if_splits)
next
  case False
  let ?starts = "get_best_indexes u (start_logits result) n_best_size"
  let ?ends = "get_best_indexes u (end_logits result) n_best_size"
  from False assms(1) have "start_loop (features ! fi) result fi max_answer_length ?starts ?ends
      prelim = Inr ps" by (simp add: feature_prelims_def)
  from start_loop_result[OF this]
  have ps: "ps = prelim @ concat (map (\<lambda>si. map (span_prediction result fi si)
                     (filter (valid_span (features ! fi) max_answer_length si) ?ends)) ?starts)"
    by blast
  show ?thesis
  proof
    fix p assume "p \<in> set ps"
    then consider "p \<in> set prelim"
      | si ei where "valid_span (features ! fi) max_answer_length si ei"
          "p = span_prediction result fi si ei"
      unfolding ps by auto
    then show "candidate_ok features max_answer_length p"
    proof cases
      case 1
      with assms(3) show ?thesis by blast
    next
      case 2
      with assms(2) show ?thesis
        unfolding candidate_ok_def span_prediction_def by auto
    qed
  qed
qed

lemma features_loop_ok:
  "features_loop u results n_best_size max_answer_length xs prelim = Inr ps \<Longrightarrow>
   \<forall>x \<in> set xs. fst x < length features \<and> features ! fst x = snd x \<Longrightarrow>
   \<forall>p \<in> set prelim. candidate_ok features max_answer_length p \<Longrightarrow>
   \<forall>p \<in> set ps. candidate_ok features max_answer_length p"
proof (induction xs arbitrary: prelim)
  case Nil
  then show ?case by simp
next
  case (Cons x xs)
  obtain fi f where x: "x = (fi, f)" by (cases x) auto
  with Cons.prems(2) have fi: "fi < length features" and f: "f = features ! fi" by auto
  from Cons.prems(1) obtain result prelim1 where
    fp: "feature_prelims u n_best_size max_answer_length fi (features ! fi) result prelim
           = Inr prelim1"
    and rest: "features_loop u results n_best_size max_answer_length xs prelim1 = Inr ps"
    unfolding x f by (auto split: option.splits sum.splits)
  from feature_prelims_ok[OF fp fi Cons.prems(3)]
  have "\<forall>p \<in> set prelim1. candidate_ok features max_answer_length p" .
  moreover from Cons.prems(2) have
    "\<forall>x \<in> set xs. fst x < length features \<and> features ! fst x = snd x" by simp
  ultimately show ?case using Cons.IH[OF rest] by blast
qed

lemma enumerate_nth: "x \<in> set (enumerate 0 xs) \<Longrightarrow> fst x < length xs \<and> xs ! fst x = snd x"
  by (auto simp: in_set_enumerate_eq)

lemma example_prelims_ok:
  assumes "example_prelims u all_features results n_best_size max_answer_length ex_index
             = Inr preds"
  shows "\<forall>p \<in> set preds.
           candidate_ok (example_features all_features ex_index) max_answer_length p"
proof -
  let ?features = "example_features all_features ex_index"
  from assms obtain prelim where
    fl: "features_loop u results n_best_size max_answer_length (enumerate 0 ?features) []
           = Inr prelim"
    and preds: "preds = sort_key (\<lambda>x. - logit x) prelim"
    by (auto simp: example_prelims_def split: sum.splits)
  have "\<forall>x \<in> set (enumerate 0 ?features). fst x < length ?features \<and> ?features ! fst x = snd x"
    using enumerate_nth by blast
  from features_loop_ok[OF fl this] have "\<forall>p \<in> set prelim.
      candidate_ok ?features max_answer_length p" by simp
  then show ?thesis by (simp add: preds)
qed

lemma final_text_of_returns:
  assumes "candidate_ok features max_answer_length p"
  shows "\<exists>t. final_text_of u do_lower_case verbose_logging example features p = Inr (Some t)"
proof -
  from assms have fi: "py_get features (int (feature_index p))
      = Inr (features ! feature_index p)"
    by (simp add: candidate_ok_def py_get_in_range)
  from assms consider "start_index p = - 1" "end_index p = - 1" "pred_text p \<noteq> None"
    | si ei where "start_index p = int si" "end_index p = int ei"
        "valid_span (features ! feature_index p) max_answer_length si ei"
    unfolding candidate_ok_def by blast
  then show ?thesis
  proof cases
    case 1
    then show ?thesis by (auto simp: final_text_of_def fi)
  next
    case 2
    from 2(3) obtain a b where
      "map_of (token_to_orig_map (features ! feature_index p)) si = Some a"
      "map_of (token_to_orig_map (features ! feature_index p)) ei = Some b"
      by (auto simp: valid_span_def)
    then have "orig_lookup (features ! feature_index p) (int si) = Inr a"
      "orig_lookup (features ! feature_index p) (int ei) = Inr b"
      by (simp_all add: orig_lookup_def)
    with 2(1,2) show ?thesis by (simp add: final_text_of_def fi Let_def)
  qed
qed


lemma example_nbest_kept:
  assumes "example_prelims u all_features results n_best_size max_answer_length ex_index
             = Inr preds"
    and "nbest_loop (final_text_of u do_lower_case verbose_logging example
                       (example_features all_features ex_index))
           n_best_size validate_flag preds ([], []) = Inr kept"
  shows "example_nbest u all_features results n_best_size max_answer_length do_lower_case
       verbose_logging validate_flag ex_index example =
       Inr (if kept = [] then [\<lparr>nbest_text = Some ''empty'', nbest_logit = 0\<rparr>] else kept)"
  by (cases kept) (simp_all add: example_nbest_def assms Let_def)

lemma nbest_loop_start:
  assumes "\<forall>p \<in> set preds. final_text p = Inr (t p)"
  shows "nbest_loop final_text n_best_size validate_flag preds ([], []) =
     Inr (take (if validate_flag then min 1 (nat n_best_size) else nat n_best_size)
            (keep_first_texts {}
               (map (\<lambda>p. \<lparr>nbest_text = t p, nbest_logit = logit p\<rparr>) preds)))"
  using nbest_loop_result[OF assms, of n_best_size validate_flag "[]" "[]"] by simp

lemma example_nbest_error:
  "example_nbest u all_features results n_best_size max_answer_length do_lower_case
     verbose_logging validate_flag ex_index example = Inl e \<Longrightarrow>
   example_prelims u all_features results n_best_size max_answer_length ex_index = Inl e"
proof (cases "example_prelims u all_features results n_best_size max_answer_length ex_index")
  case (Inl e')
  assume "example_nbest u all_features results n_best_size max_answer_length do_lower_case
     verbose_logging validate_flag ex_index example = Inl e"
  with Inl show ?thesis by (simp add: example_nbest_def)
next
  case (Inr preds)
  assume a: "example_nbest u all_features results n_best_size max_answer_length do_lower_case
     verbose_logging validate_flag ex_index example = Inl e"
  let ?ft = "final_text_of u do_lower_case verbose_logging example
               (example_features all_features ex_index)"
  let ?t = "\<lambda>p. case ?ft p of Inr x \<Rightarrow> x | Inl _ \<Rightarrow> None"
  have "\<forall>p \<in> set preds. ?ft p = Inr (?t p)"
  proof
    fix p assume "p \<in> set preds"
    with example_prelims_ok[OF Inr] have
      "candidate_ok (example_features all_features ex_index) max_answer_length p" by blast
    from final_text_of_returns[OF this, of u do_lower_case verbose_logging example]
    show "?ft p = Inr (?t p)" by auto
  qed
  from example_nbest_kept[OF Inr nbest_loop_start[OF this]] a
  show ?thesis by simp
qed

lemma example_nbest_result:
  assumes "example_prelims u all_features results n_best_size max_answer_length ex_index
             = Inr preds"
  shows "\<exists>t. (\<forall>p \<in> set preds.
                 final_text_of u do_lower_case verbose_logging example
                   (example_features all_features ex_index) p = Inr (Some (t p))) \<and>
     example_nbest u all_features results n_best_size max_answer_length do_lower_case
       verbose_logging validate_flag ex_index example =
       Inr (if take (if validate_flag then min 1 (nat n_best_size) else nat n_best_size)
                 (keep_first_texts {}
                    (map (\<lambda>p. \<lparr>nbest_text = Some (t p), nbest_logit = logit p\<rparr>) preds)) = []
            then [\<lparr>nbest_text = Some ''empty'', nbest_logit = 0\<rparr>]
            else take (if validate_flag then min 1 (nat n_best_size) else nat n_best_size)
                 (keep_first_texts {}
                    (map (\<lambda>p. \<lparr>nbest_text = Some (t p), nbest_logit = logit p\<rparr>) preds)))"
proof -
  let ?ft = "final_text_of u do_lower_case verbose_logging example
               (example_features all_features ex_index)"
  let ?t = "\<lambda>p. case ?ft p of Inr (Some x) \<Rightarrow> x | _ \<Rightarrow> []"
  have t: "\<forall>p \<in> set preds. ?ft p = Inr (Some (?t p))"
  proof
    fix p assume "p \<in> set preds"
    with example_prelims_ok[OF assms] have
      "candidate_ok (example_features all_features ex_index) max_answer_length p" by blast
    from final_text_of_returns[OF this, of u do_lower_case verbose_logging example]
    show "?ft p = Inr (Some (?t p))" by auto
  qed
  from example_nbest_kept[OF assms nbest_loop_start[OF t]]
  have "example_nbest u all_features results n_best_size max_answer_length do_lower_case
       verbose_logging validate_flag ex_index example =
       Inr (if take (if validate_flag then min 1 (nat n_best_size) else nat n_best_size)
                 (keep_first_texts {}
                    (map (\<lambda>p. \<lparr>nbest_text = Some (?t p), nbest_logit = logit p\<rparr>) preds)) = []
            then [\<lparr>nbest_text = Some ''empty'', nbest_logit = 0\<rparr>]
            else take (if validate_flag then min 1 (nat n_best_size) else nat n_best_size)
                 (keep_first_texts {}
                    (map (\<lambda>p. \<lparr>nbest_text = Some (?t p), nbest_logit = logit p\<rparr>) preds)))" .
  with t show ?thesis by (intro exI[where x = ?t] conjI)
qed

lemma example_nbest_nonempty:
  "example_nbest u all_features results n_best_size max_answer_length do_lower_case
     verbose_logging validate_flag ex_index example = Inr nbest \<Longrightarrow> nbest \<noteq> []"
  by (auto simp: example_nbest_def Let_def split: sum.splits if_splits)

lemma single_or_placeholder:
  "length (if take (min 1 k) xs = [] then [ph] else take (min 1 k) xs) = 1"
  by (cases xs; cases k) simp_all

lemma example_nbest_validate_single:
  assumes "example_nbest u all_features results n_best_size max_answer_length do_lower_case
     verbose_logging True ex_index example = Inr nbest"
  shows "length nbest = 1"
proof (cases "example_prelims u all_features results n_best_size max_answer_length ex_index")
  case (Inl e)
  with assms show ?thesis by (simp add: example_nbest_def)
next
  case (Inr preds)
  from example_nbest_result[OF Inr, of do_lower_case verbose_logging example True]
  obtain t where "example_nbest u all_features results n_best_size max_answer_length
      do_lower_case verbose_logging True ex_index example =
    Inr (if take (if True then min 1 (nat n_best_size) else nat n_best_size)
                 (keep_first_texts {}
                    (map (\<lambda>p. \<lparr>nbest_text = Some (t p), nbest_logit = logit p\<rparr>) preds)) = []
            then [\<lparr>nbest_text = Some ''empty'', nbest_logit = 0\<rparr>]
            else take (if True then min 1 (nat n_best_size) else nat n_best_size)
                 (keep_first_texts {}
                    (map (\<lambda>p. \<lparr>nbest_text = Some (t p), nbest_logit = logit p\<rparr>) preds)))"
    by blast
  with assms have "nbest =
      (if take (min 1 (nat n_best_size))
                 (keep_first_texts {}
                    (map (\<lambda>p. \<lparr>nbest_text = Some (t p), nbest_logit = logit p\<rparr>) preds)) = []
            then [\<lparr>nbest_text = Some ''empty'', nbest_logit = 0\<rparr>]
            else take (min 1 (nat n_best_size))
                 (keep_first_texts {}
                    (map (\<lambda>p. \<lparr>nbest_text = Some (t p), nbest_logit = logit p\<rparr>) preds)))"
    by (simp only: if_True sum.inject)
  then show ?thesis by (simp only: single_or_placeholder)
qed


subsection \<open>The output\<close>

lemma py_get_zero: "py_get xs 0 = Inr b \<Longrightarrow> xs \<noteq> [] \<and> b = hd xs"
  by (cases xs) (auto simp: py_get_def split: if_splits)

lemma predictions_loop_validate_step:
  assumes "predictions_loop u all_features results n_best_size max_answer_length do_lower_case
             verbose_logging True ((i, ex) # rest) (vp, ap, anj) = Inr r"
  shows "\<exists>nbest. example_nbest u all_features results n_best_size max_answer_length
                    do_lower_case verbose_logging True i ex = Inr nbest \<and> nbest \<noteq> [] \<and>
           predictions_loop u all_features results n_best_size max_answer_length do_lower_case
             verbose_logging True rest
             (AList.update (paragraph_id ex, turn_id ex) (nbest_text (hd nbest)) vp, ap, anj)
           = Inr r"
proof -
  from assms obtain nbest best where
    n: "example_nbest u all_features results n_best_size max_answer_length
          do_lower_case verbose_logging True i ex = Inr nbest"
    and b: "py_get nbest 0 = Inr best"
    and r: "predictions_loop u all_features results n_best_size max_answer_length do_lower_case
             verbose_logging True rest
             (AList.update (paragraph_id ex, turn_id ex) (nbest_text best) vp, ap, anj) = Inr r"
    by (auto split: sum.splits)
  from py_get_zero[OF b] n r show ?thesis by auto
qed

lemma predictions_loop_validate_frame:
  "predictions_loop u all_features results n_best_size max_answer_length do_lower_case
     verbose_logging True xs (vp, ap, anj) = Inr (vp1, ap1, anj1) \<Longrightarrow>
   dom (map_of vp) \<subseteq> dom (map_of vp1) \<and>
   (\<forall>key. (\<forall>x \<in> set xs. (paragraph_id (snd x), turn_id (snd x)) \<noteq> key) \<longrightarrow>
       map_of vp1 key = map_of vp key)"
proof (induction xs arbitrary: vp)
  case Nil
  then show ?case by simp
next
  case (Cons x xs)
  obtain i ex where x: "x = (i, ex)" by (cases x) auto
  from predictions_loop_validate_step[OF Cons.prems[unfolded x]]
  obtain nbest :: "NbestPrediction list" where
    "predictions_loop u all_features results n_best_size max_answer_length do_lower_case
       verbose_logging True xs
       (AList.update (paragraph_id ex, turn_id ex) (nbest_text (hd nbest)) vp, ap, anj)
     = Inr (vp1, ap1, anj1)" by blast
  from Cons.IH[OF this]
  have d: "dom (map_of (AList.update (paragraph_id ex, turn_id ex) (nbest_text (hd nbest)) vp))
             \<subseteq> dom (map_of vp1)"
    and f: "\<forall>key. (\<forall>x \<in> set xs. (paragraph_id (snd x), turn_id (snd x)) \<noteq> key) \<longrightarrow>
       map_of vp1 key
         = map_of (AList.update (paragraph_id ex, turn_id ex) (nbest_text (hd nbest)) vp) key"
    by blast+
  have "dom (map_of vp)
      \<subseteq> dom (map_of (AList.update (paragraph_id ex, turn_id ex) (nbest_text (hd nbest)) vp))"
    by (auto simp: update_conv')
  with d have "dom (map_of vp) \<subseteq> dom (map_of vp1)" by (rule order_trans[rotated])
  moreover have "\<forall>key. (\<forall>y \<in> set (x # xs). (paragraph_id (snd y), turn_id (snd y)) \<noteq> key)
       \<longrightarrow> map_of vp1 key = map_of vp key"
  proof (intro allI impI)
    fix key assume a: "\<forall>y \<in> set (x # xs). (paragraph_id (snd y), turn_id (snd y)) \<noteq> key"
    then have "(paragraph_id ex, turn_id ex) \<noteq> key" by (simp add: x)
    moreover from a have "\<forall>y \<in> set xs. (paragraph_id (snd y), turn_id (snd y)) \<noteq> key"
      by simp
    with f have "map_of vp1 key
         = map_of (AList.update (paragraph_id ex, turn_id ex) (nbest_text (hd nbest)) vp) key"
      by blast
    ultimately show "map_of vp1 key = map_of vp key" by (simp add: update_conv')
  qed
  ultimately show ?case by (intro conjI)
qed

lemma predictions_loop_validate_entries:
  "predictions_loop u all_features results n_best_size max_answer_length do_lower_case
     verbose_logging True xs (vp, ap, anj) = Inr (vp1, ap1, anj1) \<Longrightarrow> k < length xs \<Longrightarrow>
   \<exists>nbest. example_nbest u all_features results n_best_size max_answer_length do_lower_case
              verbose_logging True (fst (xs ! k)) (snd (xs ! k)) = Inr nbest \<and>
     nbest \<noteq> [] \<and>
     (paragraph_id (snd (xs ! k)), turn_id (snd (xs ! k))) \<in> dom (map_of vp1) \<and>
     ((\<forall>j. k < j \<and> j < length xs \<longrightarrow>
          (paragraph_id (snd (xs ! j)), turn_id (snd (xs ! j)))
            \<noteq> (paragraph_id (snd (xs ! k)), turn_id (snd (xs ! k)))) \<longrightarrow>
      map_of vp1 (paragraph_id (snd (xs ! k)), turn_id (snd (xs ! k)))
        = Some (nbest_text (hd nbest)))"
proof (induction xs arbitrary: vp k)
  case Nil
  then show ?case by simp
next
  case (Cons x xs)
  obtain i ex where x: "x = (i, ex)" by (cases x) auto
  let ?key = "(paragraph_id ex, turn_id ex)"
  from predictions_loop_validate_step[OF Cons.prems(1)[unfolded x]] obtain nbest where
    n: "example_nbest u all_features results n_best_size max_answer_length
          do_lower_case verbose_logging True i ex = Inr nbest" "nbest \<noteq> []"
    and r: "predictions_loop u all_features results n_best_size max_answer_length
       do_lower_case verbose_logging True xs
       (AList.update ?key (nbest_text (hd nbest)) vp, ap, anj) = Inr (vp1, ap1, anj1)"
    by blast
  note frame = predictions_loop_validate_frame[OF r]
  show ?case
  proof (cases k)
    case 0
    have "?key \<in> dom (map_of (AList.update ?key (nbest_text (hd nbest)) vp))"
      by (simp add: update_conv')
    with frame have d: "?key \<in> dom (map_of vp1)" by blast
    have "(\<forall>j. 0 < j \<and> j < length (x # xs) \<longrightarrow>
          (paragraph_id (snd ((x # xs) ! j)), turn_id (snd ((x # xs) ! j))) \<noteq> ?key) \<longrightarrow>
      map_of vp1 ?key = Some (nbest_text (hd nbest))"
    proof
      assume a: "\<forall>j. 0 < j \<and> j < length (x # xs) \<longrightarrow>
          (paragraph_id (snd ((x # xs) ! j)), turn_id (snd ((x # xs) ! j))) \<noteq> ?key"
      have "\<forall>y \<in> set xs. (paragraph_id (snd y), turn_id (snd y)) \<noteq> ?key"
      proof
        fix y assume "y \<in> set xs"
        then obtain j where "j < length xs" "y = xs ! j" by (auto simp: in_set_conv_nth)
        with a[rule_format, of "Suc j"] show "(paragraph_id (snd y), turn_id (snd y)) \<noteq> ?key"
          by simp
      qed
      with frame have "map_of vp1 ?key
          = map_of (AList.update ?key (nbest_text (hd nbest)) vp) ?key" by blast
      then show "map_of vp1 ?key = Some (nbest_text (hd nbest))" by (simp add: update_conv')
    qed
    with 0 n d show ?thesis by (simp add: x)
  next
    case (Suc k')
    with Cons.prems(2) have k': "k' < length xs" by simp
    from Cons.IH[OF r k'] obtain nb where
      nb: "example_nbest u all_features results n_best_size max_answer_length do_lower_case
              verbose_logging True (fst (xs ! k')) (snd (xs ! k')) = Inr nb" "nb \<noteq> []"
        "(paragraph_id (snd (xs ! k')), turn_id (snd (xs ! k'))) \<in> dom (map_of vp1)"
      and last: "(\<forall>j. k' < j \<and> j < length xs \<longrightarrow>
          (paragraph_id (snd (xs ! j)), turn_id (snd (xs ! j)))
            \<noteq> (paragraph_id (snd (xs ! k')), turn_id (snd (xs ! k')))) \<longrightarrow>
         map_of vp1 (paragraph_id (snd (xs ! k')), turn_id (snd (xs ! k')))
           = Some (nbest_text (hd nb))"
      by blast
    have "(\<forall>j. k < j \<and> j < length (x # xs) \<longrightarrow>
          (paragraph_id (snd ((x # xs) ! j)), turn_id (snd ((x # xs) ! j)))
            \<noteq> (paragraph_id (snd ((x # xs) ! k)), turn_id (snd ((x # xs) ! k)))) \<longrightarrow>
      map_of vp1 (paragraph_id (snd ((x # xs) ! k)), turn_id (snd ((x # xs) ! k)))
        = Some (nbest_text (hd nb))"
    proof
      assume a: "\<forall>j. k < j \<and> j < length (x # xs) \<longrightarrow>
          (paragraph_id (snd ((x # xs) ! j)), turn_id (snd ((x # xs) ! j)))
            \<noteq> (paragraph_id (snd ((x # xs) ! k)), turn_id (snd ((x # xs) ! k)))"
      have "\<forall>j. k' < j \<and> j < length xs \<longrightarrow>
          (paragraph_id (snd (xs ! j)), turn_id (snd (xs ! j)))
            \<noteq> (paragraph_id (snd (xs ! k')), turn_id (snd (xs ! k')))"
      proof (intro allI impI)
        fix j assume "k' < j \<and> j < length xs"
        with a[rule_format, of "Suc j"] Suc
        show "(paragraph_id (snd (xs ! j)), turn_id (snd (xs ! j)))
            \<noteq> (paragraph_id (snd (xs ! k')), turn_id (snd (xs ! k')))" by simp
      qed
      with last Suc
      show "map_of vp1 (paragraph_id (snd ((x # xs) ! k)), turn_id (snd ((x # xs) ! k)))
        = Some (nbest_text (hd nb))" by simp
    qed
    with nb Suc show ?thesis by auto
  qed
qed


lemma nbest_json_loop_result:
  "nbest_json_loop probs xs acc = Inr js \<Longrightarrow>
   map json_text js = map json_text acc @ map (\<lambda>x. nbest_text (snd x)) xs \<and>
   map json_logit js = map json_logit acc @ map (\<lambda>x. nbest_logit (snd x)) xs"
proof (induction xs arbitrary: acc)
  case Nil
  then show ?case by simp
next
  case (Cons x xs)
  obtain i entry where x: "x = (i, entry)" by (cases x) auto
  from Cons.prems obtain p where
    "nbest_json_loop probs xs
       (acc @ [\<lparr>json_text = nbest_text entry, probability = p,
                 json_logit = nbest_logit entry\<rparr>]) = Inr js"
    by (auto simp: x split: sum.splits)
  from Cons.IH[OF this] show ?case by (simp add: x)
qed

lemma map_snd_enumerate_fun: "map (\<lambda>x. f (snd x)) (enumerate n xs) = map f xs"
  by (induction xs arbitrary: n) simp_all

lemma predictions_loop_full_step:
  assumes "predictions_loop u all_features results n_best_size max_answer_length do_lower_case
             verbose_logging False ((i, ex) # rest) (vp, ap, anj) = Inr r"
  shows "\<exists>nbest js. example_nbest u all_features results n_best_size max_answer_length
                    do_lower_case verbose_logging False i ex = Inr nbest \<and> nbest \<noteq> [] \<and>
           map json_text js = map nbest_text nbest \<and>
           map json_logit js = map nbest_logit nbest \<and>
           predictions_loop u all_features results n_best_size max_answer_length do_lower_case
             verbose_logging False rest
             (vp,
              ap @ [\<lparr>prediction_id = paragraph_id ex, prediction_turn_id = turn_id ex,
                      answer = nbest_text (hd nbest)\<rparr>],
              anj @ [\<lparr>nbest_id = paragraph_id ex, nbest_turn_id = turn_id ex,
                       answers = js\<rparr>])
           = Inr r"
proof -
  from assms obtain nbest js best where
    n: "example_nbest u all_features results n_best_size max_answer_length
          do_lower_case verbose_logging False i ex = Inr nbest"
    and j: "nbest_json_loop (compute_softmax u (map nbest_logit nbest)) (enumerate 0 nbest) []
              = Inr js"
    and b: "py_get js 0 = Inr best"
    and r: "predictions_loop u all_features results n_best_size max_answer_length do_lower_case
             verbose_logging False rest
             (vp,
              ap @ [\<lparr>prediction_id = paragraph_id ex, prediction_turn_id = turn_id ex,
                      answer = json_text best\<rparr>],
              anj @ [\<lparr>nbest_id = paragraph_id ex, nbest_turn_id = turn_id ex,
                       answers = js\<rparr>]) = Inr r"
    by (auto split: sum.splits if_splits)
  from nbest_json_loop_result[OF j]
  have t: "map json_text js = map nbest_text nbest"
    and l: "map json_logit js = map nbest_logit nbest"
    by (simp_all add: map_snd_enumerate_fun)
  from py_get_zero[OF b] have js: "js \<noteq> []" and best: "best = hd js" by simp_all
  from t js have nb: "nbest \<noteq> []" by auto
  from js have "json_text (hd js) = hd (map json_text js)" by (simp add: hd_map)
  also from nb have "\<dots> = nbest_text (hd nbest)" by (simp add: t hd_map)
  finally have "json_text best = nbest_text (hd nbest)" by (simp add: best)
  with n nb t l r show ?thesis by auto
qed


lemma predictions_loop_full:
  "predictions_loop u all_features results n_best_size max_answer_length do_lower_case
     verbose_logging False xs (vp, ap, anj) = Inr (vp1, ap1, anj1) \<Longrightarrow>
   \<exists>aps nbs. vp1 = vp \<and> ap1 = ap @ aps \<and> anj1 = anj @ nbs \<and>
     list_all2 (\<lambda>x p. \<exists>nbest.
         example_nbest u all_features results n_best_size max_answer_length do_lower_case
           verbose_logging False (fst x) (snd x) = Inr nbest \<and>
         p = \<lparr>prediction_id = paragraph_id (snd x), prediction_turn_id = turn_id (snd x),
               answer = nbest_text (hd nbest)\<rparr>) xs aps \<and>
     list_all2 (\<lambda>x r. \<exists>nbest.
         example_nbest u all_features results n_best_size max_answer_length do_lower_case
           verbose_logging False (fst x) (snd x) = Inr nbest \<and> nbest \<noteq> [] \<and>
         nbest_id r = paragraph_id (snd x) \<and> nbest_turn_id r = turn_id (snd x) \<and>
         map json_text (answers r) = map nbest_text nbest \<and>
         map json_logit (answers r) = map nbest_logit nbest) xs nbs"
proof (induction xs arbitrary: ap anj)
  case Nil
  then show ?case by simp
next
  case (Cons x xs)
  obtain i ex where x: "x = (i, ex)" by (cases x) auto
  from predictions_loop_full_step[OF Cons.prems[unfolded x]]
  obtain nbest :: "NbestPrediction list" and js :: "NbestJson list" where
    n: "example_nbest u all_features results n_best_size max_answer_length
          do_lower_case verbose_logging False i ex = Inr nbest" "nbest \<noteq> []"
      "map json_text js = map nbest_text nbest" "map json_logit js = map nbest_logit nbest"
    and r: "predictions_loop u all_features results n_best_size max_answer_length
       do_lower_case verbose_logging False xs
       (vp,
        ap @ [\<lparr>prediction_id = paragraph_id ex, prediction_turn_id = turn_id ex,
                answer = nbest_text (hd nbest)\<rparr>],
        anj @ [\<lparr>nbest_id = paragraph_id ex, nbest_turn_id = turn_id ex, answers = js\<rparr>])
       = Inr (vp1, ap1, anj1)"
    by blast
  let ?p = "\<lparr>prediction_id = paragraph_id ex, prediction_turn_id = turn_id ex,
                answer = nbest_text (hd nbest)\<rparr>"
  let ?r = "\<lparr>nbest_id = paragraph_id ex, nbest_turn_id = turn_id ex, answers = js\<rparr>"
  from Cons.IH[OF r] obtain aps nbs where
    ih: "vp1 = vp" "ap1 = (ap @ [?p]) @ aps" "anj1 = (anj @ [?r]) @ nbs"
      "list_all2 (\<lambda>x p. \<exists>nbest.
         example_nbest u all_features results n_best_size max_answer_length do_lower_case
           verbose_logging False (fst x) (snd x) = Inr nbest \<and>
         p = \<lparr>prediction_id = paragraph_id (snd x), prediction_turn_id = turn_id (snd x),
               answer = nbest_text (hd nbest)\<rparr>) xs aps"
      "list_all2 (\<lambda>x r. \<exists>nbest.
         example_nbest u all_features results n_best_size max_answer_length do_lower_case
           verbose_logging False (fst x) (snd x) = Inr nbest \<and> nbest \<noteq> [] \<and>
         nbest_id r = paragraph_id (snd x) \<and> nbest_turn_id r = turn_id (snd x) \<and>
         map json_text (answers r) = map nbest_text nbest \<and>
         map json_logit (answers r) = map nbest_logit nbest) xs nbs"
    by blast
  show ?case
  proof (intro exI[where x = "?p # aps"] exI[where x = "?r # nbs"] conjI)
    show "vp1 = vp" by (rule ih(1))
    show "ap1 = ap @ ?p # aps" using ih(2) by simp
    show "anj1 = anj @ ?r # nbs" using ih(3) by simp
    show "list_all2 (\<lambda>x p. \<exists>nbest.
         example_nbest u all_features results n_best_size max_answer_length do_lower_case
           verbose_logging False (fst x) (snd x) = Inr nbest \<and>
         p = \<lparr>prediction_id = paragraph_id (snd x), prediction_turn_id = turn_id (snd x),
               answer = nbest_text (hd nbest)\<rparr>) (x # xs) (?p # aps)"
      using ih(4) n(1) by (simp add: x)
    show "list_all2 (\<lambda>x r. \<exists>nbest.
         example_nbest u all_features results n_best_size max_answer_length do_lower_case
           verbose_logging False (fst x) (snd x) = Inr nbest \<and> nbest \<noteq> [] \<and>
         nbest_id r = paragraph_id (snd x) \<and> nbest_turn_id r = turn_id (snd x) \<and>
         map json_text (answers r) = map nbest_text nbest \<and>
         map json_logit (answers r) = map nbest_logit nbest) (x # xs) (?r # nbs)"
      using ih(5) n by (simp add: x)
  qed
qed

lemma end_loop_error:
  "end_loop feature result fi max_answer_length si ends prelim = Inl e \<Longrightarrow> e = IndexError"
proof (induction ends arbitrary: prelim)
  case Nil
  then show ?case by simp
next
  case (Cons ei rest)
  show ?case
  proof (cases "valid_span feature max_answer_length si ei")
    case False
    from Cons.prems show ?thesis unfolding end_loop_skip[OF False] by (rule Cons.IH)
  next
    case True
    from Cons.prems show ?thesis unfolding end_loop_keep[OF True]
      by (auto split: sum.splits dest: py_get_error Cons.IH)
  qed
qed

lemma start_loop_error:
  "start_loop feature result fi max_answer_length starts ends prelim = Inl e \<Longrightarrow>
   e = IndexError"
  by (induction starts arbitrary: prelim) (auto split: sum.splits dest: end_loop_error)

lemma features_loop_error:
  "features_loop u results n_best_size max_answer_length xs prelim = Inl e \<Longrightarrow>
   e = KeyError \<or> e = IndexError"
proof (induction xs arbitrary: prelim)
  case Nil
  then show ?case by simp
next
  case (Cons x xs)
  obtain fi f where x: "x = (fi, f)" by (cases x) auto
  from Cons.prems show ?case unfolding x
    by (auto simp: feature_prelims_def split: option.splits sum.splits if_splits
             dest: start_loop_error Cons.IH)
qed

lemma example_nbest_error_kind:
  assumes "example_nbest u all_features results n_best_size max_answer_length do_lower_case
     verbose_logging validate_flag ex_index example = Inl e"
  shows "e = KeyError \<or> e = IndexError"
proof -
  from example_nbest_error[OF assms] show ?thesis
    by (auto simp: example_prelims_def split: sum.splits dest: features_loop_error)
qed

lemma nbest_json_loop_error: "nbest_json_loop probs xs acc = Inl e \<Longrightarrow> e = IndexError"
proof (induction xs arbitrary: acc)
  case Nil
  then show ?case by simp
next
  case (Cons x xs)
  obtain i entry where x: "x = (i, entry)" by (cases x) auto
  from Cons.prems show ?case unfolding x
    by (auto split: sum.splits dest: py_get_error Cons.IH)
qed

lemma nbest_json_loop_length:
  "nbest_json_loop probs xs acc = Inr js \<Longrightarrow> length js = length acc + length xs"
  using nbest_json_loop_result[of probs xs acc js]
  by (metis length_append length_map)

lemma predictions_loop_error:
  "predictions_loop u all_features results n_best_size max_answer_length do_lower_case
     verbose_logging validate_flag xs st = Inl e \<Longrightarrow> e = KeyError \<or> e = IndexError"
proof (induction xs arbitrary: st)
  case Nil
  then show ?case by simp
next
  case (Cons x xs)
  obtain i ex where x: "x = (i, ex)" by (cases x) auto
  obtain vp ap anj where st: "st = (vp, ap, anj)" by (cases st) auto
  show ?case
  proof (cases "example_nbest u all_features results n_best_size max_answer_length
                  do_lower_case verbose_logging validate_flag i ex")
    case (Inl e')
    with Cons.prems example_nbest_error_kind[OF Inl] show ?thesis by (simp add: x st)
  next
    case (Inr nbest)
    from example_nbest_nonempty[OF Inr] have ne: "nbest \<noteq> []" .
    show ?thesis
    proof (cases validate_flag)
      case True
      then have vf: "validate_flag = True" by simp
      note ih = Cons.IH[unfolded vf]
      from Cons.prems Inr show ?thesis unfolding x st vf
        by (auto split: sum.splits dest: py_get_error ih)
    next
      case False
      then have vf: "validate_flag = False" by simp
      note ih = Cons.IH[unfolded vf]
      show ?thesis
      proof (cases "nbest_json_loop (compute_softmax u (map nbest_logit nbest))
                      (enumerate 0 nbest) []")
        case (Inl e')
        with Cons.prems Inr nbest_json_loop_error[OF Inl] show ?thesis
          by (simp add: x st vf)
      next
        case js: (Inr js)
        from nbest_json_loop_length[OF js] ne have "1 \<le> length js" by (cases nbest) simp_all
        with Cons.prems Inr js show ?thesis unfolding x st vf
          by (auto split: sum.splits dest: py_get_error ih)
      qed
    qed
  qed
qed


lemma make_predictions_validate:
  assumes "make_predictions u all_examples all_features all_results n_best_size
             max_answer_length do_lower_case verbose_logging True = Inr out"
  shows "\<exists>vp. out = ValidatePredictions vp \<and>
           predictions_loop u all_features (unique_id_to_result all_results) n_best_size
             max_answer_length do_lower_case verbose_logging True (enumerate 0 all_examples)
             ([], [], []) = Inr (vp, [], [])"
proof -
  from assms obtain vp ap anj where
    p: "predictions_loop u all_features (unique_id_to_result all_results) n_best_size
             max_answer_length do_lower_case verbose_logging True (enumerate 0 all_examples)
             ([], [], []) = Inr (vp, ap, anj)"
    and out: "out = ValidatePredictions vp"
    by (auto simp: make_predictions_def split: sum.splits)
  have "\<And>xs vp0 ap0 anj0. predictions_loop u all_features (unique_id_to_result all_results)
           n_best_size max_answer_length do_lower_case verbose_logging True xs (vp0, ap0, anj0)
           = Inr (vp, ap, anj) \<Longrightarrow> ap = ap0 \<and> anj = anj0"
  proof -
    fix xs vp0 ap0 anj0
    show "predictions_loop u all_features (unique_id_to_result all_results)
           n_best_size max_answer_length do_lower_case verbose_logging True xs (vp0, ap0, anj0)
           = Inr (vp, ap, anj) \<Longrightarrow> ap = ap0 \<and> anj = anj0"
    proof (induction xs arbitrary: vp0)
      case Nil
      then show ?case by simp
    next
      case (Cons x xs)
      obtain i ex where x: "x = (i, ex)" by (cases x) auto
      from predictions_loop_validate_step[OF Cons.prems[unfolded x]] Cons.IH
      show ?case by blast
    qed
  qed
  from this[OF p] p out show ?thesis by simp
qed

lemma make_predictions_validate_entries:
  "(make_predictions u all_examples all_features all_results n_best_size max_answer_length
      do_lower_case verbose_logging True = Inr out \<longrightarrow>
      (\<exists>vp. out = ValidatePredictions vp \<and>
         (\<forall>k < length all_examples.
            \<exists>nbest. example_nbest u all_features (unique_id_to_result all_results) n_best_size
                       max_answer_length do_lower_case verbose_logging True k
                       (all_examples ! k) = Inr nbest \<and>
              length nbest = 1 \<and>
              (paragraph_id (all_examples ! k), turn_id (all_examples ! k))
                 \<in> dom (map_of vp) \<and>
              ((\<forall>j. k < j \<and> j < length all_examples \<longrightarrow>
                   (paragraph_id (all_examples ! j), turn_id (all_examples ! j))
                     \<noteq> (paragraph_id (all_examples ! k), turn_id (all_examples ! k))) \<longrightarrow>
               map_of vp (paragraph_id (all_examples ! k), turn_id (all_examples ! k))
                 = Some (nbest_text (hd nbest))))))"
proof (intro impI)
  assume "make_predictions u all_examples all_features all_results n_best_size
      max_answer_length do_lower_case verbose_logging True = Inr out"
  from make_predictions_validate[OF this] obtain vp where
    out: "out = ValidatePredictions vp"
    and p: "predictions_loop u all_features (unique_id_to_result all_results) n_best_size
             max_answer_length do_lower_case verbose_logging True (enumerate 0 all_examples)
             ([], [], []) = Inr (vp, [], [])"
    by blast
  have "\<forall>k < length all_examples.
            \<exists>nbest. example_nbest u all_features (unique_id_to_result all_results) n_best_size
                       max_answer_length do_lower_case verbose_logging True k
                       (all_examples ! k) = Inr nbest \<and>
              length nbest = 1 \<and>
              (paragraph_id (all_examples ! k), turn_id (all_examples ! k))
                 \<in> dom (map_of vp) \<and>
              ((\<forall>j. k < j \<and> j < length all_examples \<longrightarrow>
                   (paragraph_id (all_examples ! j), turn_id (all_examples ! j))
                     \<noteq> (paragraph_id (all_examples ! k), turn_id (all_examples ! k))) \<longrightarrow>
               map_of vp (paragraph_id (all_examples ! k), turn_id (all_examples ! k))
                 = Some (nbest_text (hd nbest)))"
  proof (intro allI impI)
    fix k assume k: "k < length all_examples"
    then have k': "k < length (enumerate 0 all_examples)" by simp
    from k have nth: "enumerate 0 all_examples ! k = (k, all_examples ! k)"
      by (simp add: nth_enumerate_eq)
    have nths: "\<And>j. j < length all_examples \<Longrightarrow>
        snd (enumerate 0 all_examples ! j) = all_examples ! j"
      by (simp add: nth_enumerate_eq)
    from predictions_loop_validate_entries[OF p k'] obtain nbest where
      n: "example_nbest u all_features (unique_id_to_result all_results) n_best_size
            max_answer_length do_lower_case verbose_logging True k (all_examples ! k)
          = Inr nbest"
      and d: "(paragraph_id (all_examples ! k), turn_id (all_examples ! k)) \<in> dom (map_of vp)"
      and v: "(\<forall>j. k < j \<and> j < length (enumerate 0 all_examples) \<longrightarrow>
          (paragraph_id (snd (enumerate 0 all_examples ! j)),
           turn_id (snd (enumerate 0 all_examples ! j)))
            \<noteq> (paragraph_id (all_examples ! k), turn_id (all_examples ! k))) \<longrightarrow>
         map_of vp (paragraph_id (all_examples ! k), turn_id (all_examples ! k))
           = Some (nbest_text (hd nbest))"
      unfolding nth by auto
    have "(\<forall>j. k < j \<and> j < length all_examples \<longrightarrow>
                   (paragraph_id (all_examples ! j), turn_id (all_examples ! j))
                     \<noteq> (paragraph_id (all_examples ! k), turn_id (all_examples ! k))) \<longrightarrow>
               map_of vp (paragraph_id (all_examples ! k), turn_id (all_examples ! k))
                 = Some (nbest_text (hd nbest))"
    proof
      assume a: "\<forall>j. k < j \<and> j < length all_examples \<longrightarrow>
                   (paragraph_id (all_examples ! j), turn_id (all_examples ! j))
                     \<noteq> (paragraph_id (all_examples ! k), turn_id (all_examples ! k))"
      have "\<forall>j. k < j \<and> j < length (enumerate 0 all_examples) \<longrightarrow>
          (paragraph_id (snd (enumerate 0 all_examples ! j)),
           turn_id (snd (enumerate 0 all_examples ! j)))
            \<noteq> (paragraph_id (all_examples ! k), turn_id (all_examples ! k))"
      proof (intro allI impI)
        fix j assume j: "k < j \<and> j < length (enumerate 0 all_examples)"
        then have "j < length all_examples" by simp
        with a j nths[OF this]
        show "(paragraph_id (snd (enumerate 0 all_examples ! j)),
           turn_id (snd (enumerate 0 all_examples ! j)))
            \<noteq> (paragraph_id (all_examples ! k), turn_id (all_examples ! k))"
          by simp
      qed
      with v show "map_of vp (paragraph_id (all_examples ! k), turn_id (all_examples ! k))
                 = Some (nbest_text (hd nbest))" by blast
    qed
    with n d example_nbest_validate_single[OF n]
    show "\<exists>nbest. example_nbest u all_features (unique_id_to_result all_results) n_best_size
                       max_answer_length do_lower_case verbose_logging True k
                       (all_examples ! k) = Inr nbest \<and>
              length nbest = 1 \<and>
              (paragraph_id (all_examples ! k), turn_id (all_examples ! k))
                 \<in> dom (map_of vp) \<and>
              ((\<forall>j. k < j \<and> j < length all_examples \<longrightarrow>
                   (paragraph_id (all_examples ! j), turn_id (all_examples ! j))
                     \<noteq> (paragraph_id (all_examples ! k), turn_id (all_examples ! k))) \<longrightarrow>
               map_of vp (paragraph_id (all_examples ! k), turn_id (all_examples ! k))
                 = Some (nbest_text (hd nbest)))"
      by blast
  qed
  with out show "\<exists>vp. out = ValidatePredictions vp \<and>
         (\<forall>k < length all_examples.
            \<exists>nbest. example_nbest u all_features (unique_id_to_result all_results) n_best_size
                       max_answer_length do_lower_case verbose_logging True k
                       (all_examples ! k) = Inr nbest \<and>
              length nbest = 1 \<and>
              (paragraph_id (all_examples ! k), turn_id (all_examples ! k))
                 \<in> dom (map_of vp) \<and>
              ((\<forall>j. k < j \<and> j < length all_examples \<longrightarrow>
                   (paragraph_id (all_examples ! j), turn_id (all_examples ! j))
                     \<noteq> (paragraph_id (all_examples ! k), turn_id (all_examples ! k))) \<longrightarrow>
               map_of vp (paragraph_id (all_examples ! k), turn_id (all_examples ! k))
                 = Some (nbest_text (hd nbest))))"
    by blast
qed















lemma make_predictions_full:
  assumes "make_predictions u all_examples all_features all_results n_best_size
             max_answer_length do_lower_case verbose_logging False = Inr out"
  shows "\<exists>ps nbs. out = AllPredictions ps nbs \<and> length ps = length all_examples \<and>
           length nbs = length all_examples \<and> (\<forall>r \<in> set nbs. answers r \<noteq> [])"
proof -
  from assms obtain vp ap anj where
    p: "predictions_loop u all_features (unique_id_to_result all_results) n_best_size
             max_answer_length do_lower_case verbose_logging False (enumerate 0 all_examples)
             ([], [], []) = Inr (vp, ap, anj)"
    and out: "out = AllPredictions ap anj"
    by (auto simp: make_predictions_def split: sum.splits)
  let ?R = "\<lambda>x r. \<exists>nbest.
         example_nbest u all_features (unique_id_to_result all_results) n_best_size
           max_answer_length do_lower_case verbose_logging False (fst x) (snd x) = Inr nbest \<and>
         nbest \<noteq> [] \<and>
         nbest_id r = paragraph_id (snd x) \<and> nbest_turn_id r = turn_id (snd x) \<and>
         map json_text (answers r) = map nbest_text nbest \<and>
         map json_logit (answers r) = map nbest_logit nbest"
  from predictions_loop_full[OF p] obtain aps nbs where
    ap: "ap = [] @ aps" and anj: "anj = [] @ nbs"
    and l1: "list_all2 (\<lambda>x p. \<exists>nbest.
         example_nbest u all_features (unique_id_to_result all_results) n_best_size
           max_answer_length do_lower_case verbose_logging False (fst x) (snd x) = Inr nbest \<and>
         p = \<lparr>prediction_id = paragraph_id (snd x), prediction_turn_id = turn_id (snd x),
               answer = nbest_text (hd nbest)\<rparr>) (enumerate 0 all_examples) aps"
    and l2: "list_all2 ?R (enumerate 0 all_examples) nbs"
    by blast
  from l1 have a: "length ap = length all_examples"
    by (simp add: ap list_all2_lengthD[symmetric])
  from l2 have b: "length anj = length all_examples"
    by (simp add: anj list_all2_lengthD[symmetric])
  have c: "\<forall>r \<in> set anj. answers r \<noteq> []"
  proof
    fix r assume "r \<in> set anj"
    with anj have "r \<in> set nbs" by simp
    then obtain i where i: "i < length nbs" "r = nbs ! i" by (auto simp: in_set_conv_nth)
    from list_all2_nthD2[OF l2 i(1)] i(2) have "?R (enumerate 0 all_examples ! i) r" by simp
    then obtain nbest :: "NbestPrediction list" where
      "nbest \<noteq> []" "map json_text (answers r) = map nbest_text nbest" by blast
    then show "answers r \<noteq> []" by auto
  qed
  from out a b c show ?thesis by blast
qed

lemma make_predictions_error:
  "make_predictions u all_examples all_features all_results n_best_size max_answer_length
     do_lower_case verbose_logging validate_flag = Inl e \<Longrightarrow> e = KeyError \<or> e = IndexError"
  by (auto simp: make_predictions_def split: sum.splits dest: predictions_loop_error)

lemma example_nbest_no_chunks:
  assumes "example_features all_features ex_index = []"
  shows "example_nbest u all_features results n_best_size max_answer_length do_lower_case
           verbose_logging validate_flag ex_index example
         = Inr [\<lparr>nbest_text = Some ''empty'', nbest_logit = 0\<rparr>]"
  by (simp add: example_nbest_def example_prelims_def assms)

text \<open>
  Claim C8. The ranked list of an example is never empty and the assertions on
  it never fail: when the loop keeps no candidate (for instance when the example
  has no chunk) the list is the single entry with text \<open>empty\<close> and logit 0. So
  the dictionary of validation mode has an entry for every example, and the
  n-best output has one record for every example, each with at least one
  answer.
\<close>

theorem decoding_never_empty:
  "(example_nbest u all_features results n_best_size max_answer_length do_lower_case
      verbose_logging validate_flag ex_index example = Inr nbest \<longrightarrow> nbest \<noteq> []) \<and>
   example_nbest u all_features results n_best_size max_answer_length do_lower_case
      verbose_logging validate_flag ex_index example \<noteq> Inl AssertionError \<and>
   (example_prelims u all_features results n_best_size max_answer_length ex_index = Inr preds \<longrightarrow>
    nbest_loop (final_text_of u do_lower_case verbose_logging example
                  (example_features all_features ex_index))
      n_best_size validate_flag preds ([], []) = Inr [] \<longrightarrow>
    example_nbest u all_features results n_best_size max_answer_length do_lower_case
      verbose_logging validate_flag ex_index example
      = Inr [\<lparr>nbest_text = Some ''empty'', nbest_logit = 0\<rparr>]) \<and>
   (example_features all_features ex_index = [] \<longrightarrow>
    example_nbest u all_features results n_best_size max_answer_length do_lower_case
      verbose_logging validate_flag ex_index example
      = Inr [\<lparr>nbest_text = Some ''empty'', nbest_logit = 0\<rparr>]) \<and>
   (make_predictions u all_examples all_features all_results n_best_size max_answer_length
      do_lower_case verbose_logging True = Inr out \<longrightarrow>
      (\<exists>vp. out = ValidatePredictions vp \<and>
         (\<forall>k < length all_examples. \<exists>t.
            map_of vp (paragraph_id (all_examples ! k), turn_id (all_examples ! k)) = Some t))) \<and>
   (make_predictions u all_examples all_features all_results n_best_size max_answer_length
      do_lower_case verbose_logging False = Inr out \<longrightarrow>
      (\<exists>ps nbs. out = AllPredictions ps nbs \<and> length ps = length all_examples \<and>
         length nbs = length all_examples \<and> (\<forall>r \<in> set nbs. answers r \<noteq> []))) \<and>
   make_predictions u all_examples all_features all_results n_best_size max_answer_length
      do_lower_case verbose_logging validate_flag \<noteq> Inl AssertionError"
proof (intro conjI impI)
  show "example_nbest u all_features results n_best_size max_answer_length do_lower_case
      verbose_logging validate_flag ex_index example = Inr nbest \<Longrightarrow> nbest \<noteq> []"
    by (rule example_nbest_nonempty)
  show "example_nbest u all_features results n_best_size max_answer_length do_lower_case
      verbose_logging validate_flag ex_index example \<noteq> Inl AssertionError"
    using example_nbest_error_kind[of u all_features results n_best_size max_answer_length
        do_lower_case verbose_logging validate_flag ex_index example AssertionError]
    by auto
  show "example_prelims u all_features results n_best_size max_answer_length ex_index
          = Inr preds \<Longrightarrow>
    nbest_loop (final_text_of u do_lower_case verbose_logging example
                  (example_features all_features ex_index))
      n_best_size validate_flag preds ([], []) = Inr [] \<Longrightarrow>
    example_nbest u all_features results n_best_size max_answer_length do_lower_case
      verbose_logging validate_flag ex_index example
      = Inr [\<lparr>nbest_text = Some ''empty'', nbest_logit = 0\<rparr>]"
    using example_nbest_kept[of u all_features results n_best_size max_answer_length ex_index
        preds do_lower_case verbose_logging example validate_flag "[]"]
    by simp
  show "example_features all_features ex_index = [] \<Longrightarrow>
    example_nbest u all_features results n_best_size max_answer_length do_lower_case
      verbose_logging validate_flag ex_index example
      = Inr [\<lparr>nbest_text = Some ''empty'', nbest_logit = 0\<rparr>]"
    by (rule example_nbest_no_chunks)
  show "make_predictions u all_examples all_features all_results n_best_size max_answer_length
      do_lower_case verbose_logging True = Inr out \<Longrightarrow>
      \<exists>vp. out = ValidatePredictions vp \<and>
         (\<forall>k < length all_examples. \<exists>t.
            map_of vp (paragraph_id (all_examples ! k), turn_id (all_examples ! k)) = Some t)"
    using make_predictions_validate_entries[of u all_examples all_features all_results
        n_best_size max_answer_length do_lower_case verbose_logging out]
    by (fastforce simp: dom_def)
  show "make_predictions u all_examples all_features all_results n_best_size max_answer_length
      do_lower_case verbose_logging False = Inr out \<Longrightarrow>
      \<exists>ps nbs. out = AllPredictions ps nbs \<and> length ps = length all_examples \<and>
         length nbs = length all_examples \<and> (\<forall>r \<in> set nbs. answers r \<noteq> [])"
    by (rule make_predictions_full)
  show "make_predictions u all_examples all_features all_results n_best_size max_answer_length
      do_lower_case verbose_logging validate_flag \<noteq> Inl AssertionError"
    using make_predictions_error[of u all_examples all_features all_results n_best_size
        max_answer_length do_lower_case verbose_logging validate_flag AssertionError]
    by auto
qed

lemma no_chunks_full:
  "make_predictions test_util [example_ab_cd] [] [] 3 30 True False False =
     Inr (AllPredictions
            [\<lparr>prediction_id = ''p'', prediction_turn_id = 1, answer = Some ''empty''\<rparr>]
            [\<lparr>nbest_id = ''p'', nbest_turn_id = 1,
              answers = [\<lparr>json_text = Some ''empty'', probability = 0, json_logit = 0\<rparr>]\<rparr>])"
  by code_simp

theorem decoding_never_empty_witness:
  "example_features [] 0 = [] \<and>
   example_nbest test_util [] [] 3 30 True False False 0 example_ab_cd
     = Inr [\<lparr>nbest_text = Some ''empty'', nbest_logit = 0\<rparr>] \<and>
   make_predictions test_util [example_ab_cd] [] [] 3 30 True False False =
     Inr (AllPredictions
            [\<lparr>prediction_id = ''p'', prediction_turn_id = 1, answer = Some ''empty''\<rparr>]
            [\<lparr>nbest_id = ''p'', nbest_turn_id = 1,
              answers = [\<lparr>json_text = Some ''empty'', probability = 0, json_logit = 0\<rparr>]\<rparr>]) \<and>
   (\<exists>ps nbs. AllPredictions
            [\<lparr>prediction_id = ''p'', prediction_turn_id = 1, answer = Some ''empty''\<rparr>]
            [\<lparr>nbest_id = ''p'', nbest_turn_id = 1,
              answers = [\<lparr>json_text = Some ''empty'', probability = 0, json_logit = 0\<rparr>]\<rparr>]
          = AllPredictions ps nbs \<and> length ps = length [example_ab_cd] \<and>
         length nbs = length [example_ab_cd] \<and> (\<forall>r \<in> set nbs. answers r \<noteq> []))"
proof -
  have a: "example_features [] 0 = []" by (simp add: example_features_def)
  note t = decoding_never_empty [of test_util "[]" "[]" 3 30 True False False 0 example_ab_cd
      _ _ "[example_ab_cd]" "[]"
      "AllPredictions
            [\<lparr>prediction_id = ''p'', prediction_turn_id = 1, answer = Some ''empty''\<rparr>]
            [\<lparr>nbest_id = ''p'', nbest_turn_id = 1,
              answers = [\<lparr>json_text = Some ''empty'', probability = 0, json_logit = 0\<rparr>]\<rparr>]"]
  from t a have b: "example_nbest test_util [] [] 3 30 True False False 0 example_ab_cd
     = Inr [\<lparr>nbest_text = Some ''empty'', nbest_logit = 0\<rparr>]" by blast
  have "unique_id_to_result [] = []" by (simp add: unique_id_to_result_def)
  from t no_chunks_full have c: "\<exists>ps nbs. AllPredictions
            [\<lparr>prediction_id = ''p'', prediction_turn_id = 1, answer = Some ''empty''\<rparr>]
            [\<lparr>nbest_id = ''p'', nbest_turn_id = 1,
              answers = [\<lparr>json_text = Some ''empty'', probability = 0, json_logit = 0\<rparr>]\<rparr>]
          = AllPredictions ps nbs \<and> length ps = length [example_ab_cd] \<and>
         length nbs = length [example_ab_cd] \<and> (\<forall>r \<in> set nbs. answers r \<noteq> [])"
    by blast
  from a b no_chunks_full c show ?thesis by (intro conjI)
qed

end
